theory Spec2Isabelle
  imports Complex_Main "HOL-Library.Log_Nat" "HOL-Library.Word" "HOL-Library.AList"
begin

unbundle bit_operations_syntax

section \<open>Arithmetic of the C++ source\<close>

text \<open>
  The player computes with \<^verbatim>\<open>float\<close> (the sizing step) and \<^verbatim>\<open>double\<close> (the colour
  quantiser, the luma, the speed multiplier and the pacing). Both are modelled by exact
  rationals that are rounded after every operation: \<open>rnd p x\<close> is \<open>x\<close> rounded to the
  nearest number with a \<open>p\<close>-bit significand, ties to the even significand, which is IEEE
  754 round-to-nearest-even for every value in the normal range (24 bits for
  \<^verbatim>\<open>float\<close>, 53 for \<^verbatim>\<open>double\<close>). All values the modelled code produces from 32-bit
  integers and the constants of the source lie in that range, so neither overflow to
  infinity nor subnormal numbers arise; the one division by zero the sizing step can
  perform is written out where it occurs.
\<close>

definition rne :: "rat \<Rightarrow> int" where
  "rne x = (let f = \<lfloor>x\<rfloor>; d = x - of_int f in
     if d < 1/2 then f else if 1/2 < d then f + 1 else if even f then f else f + 1)"

definition fexp :: "nat \<Rightarrow> rat \<Rightarrow> int" where
  "fexp p x = (let (a, b) = quotient_of x; k = bitlen a - bitlen b - int p in
      if x < 2 powi (k + int p) then k else k + 1)"

definition rnd :: "nat \<Rightarrow> rat \<Rightarrow> rat" where
  "rnd p x = (if x = 0 then 0 else
     let e = fexp p \<bar>x\<bar> in sgn x * of_int (rne (\<bar>x\<bar> / 2 powi e)) * 2 powi e)"

definition f32 :: "rat \<Rightarrow> rat" where
  "f32 = rnd 24"

definition f64 :: "rat \<Rightarrow> rat" where
  "f64 = rnd 53"

text \<open>\<^verbatim>\<open>static_cast<int>\<close> of a floating value truncates towards zero; it is undefined
  behaviour when the truncated value is not a 32-bit \<^verbatim>\<open>int\<close>.\<close>

definition trunc :: "rat \<Rightarrow> int" where
  "trunc x = (if 0 \<le> x then \<lfloor>x\<rfloor> else \<lceil>x\<rceil>)"

definition cast_int :: "rat \<Rightarrow> int option" where
  "cast_int x = (if - (2 ^ 31) \<le> trunc x \<and> trunc x < 2 ^ 31 then Some (trunc x) else None)"

text \<open>\<^verbatim>\<open>std::to_string(int)\<close>.\<close>

fun digits :: "nat \<Rightarrow> string" where
  "digits n = (if n < 10 then [char_of (48 + n)]
               else digits (n div 10) @ [char_of (48 + n mod 10)])"

declare digits.simps [simp del]

definition to_string :: "int \<Rightarrow> string" where
  "to_string i = (if i < 0 then CHR ''-'' # digits (nat (- i)) else digits (nat i))"

section \<open>Data model of \<^verbatim>\<open>ASCIIVideoPlayer\<close>\<close>

type_synonym u8 = "8 word"

datatype ColorMode = MONO | COLOR_8BIT | COLOR_24BIT

datatype ColorKey = ColorKey (key_r: u8) (key_g: u8) (key_b: u8) (key_background: bool)

text \<open>The counters are \<^verbatim>\<open>size_t\<close>; they are modelled as naturals (a 64-bit counter does
  not wrap in any run the claims consider).\<close>

record CacheStats =
  hits :: nat
  misses :: nat
  cache_size :: nat

text \<open>The three \<^verbatim>\<open>std::unordered_map\<close> caches are association lists with unique keys:
  \<open>map_of\<close> is \<^verbatim>\<open>find\<close>, \<open>AList.update\<close> is \<^verbatim>\<open>m[k] = v\<close>, \<open>length\<close> is
  \<^verbatim>\<open>size()\<close>, \<open>[]\<close> is the map after \<^verbatim>\<open>clear()\<close>.\<close>

record player =
  current_color_mode :: ColorMode
  color_cache_8bit :: "(ColorKey \<times> string) list"
  color_cache_24bit :: "(ColorKey \<times> string) list"
  rgb_to_8bit_cache :: "(32 word \<times> int) list"
  cache_stats :: CacheStats

definition ASCII_CHARS :: string where
  "ASCII_CHARS = '' .'' @ [CHR 0x27] @ ''`^'' @ [CHR 0x22] @ '',:;Il!i><~+_-?][}{1)(|''
     @ [CHR 0x5C] @ ''/tfjrxnuvczXYUJCLQ0OZmwqpdbkhao*#MW&8%B@$''"

definition ESC :: string where
  "ESC = [CHR 0x1B]"

definition NL :: string where
  "NL = [CHR 0x0A]"

text \<open>\<^verbatim>\<open>initializeBrightnessLookup\<close>: the table is filled once by the constructor.\<close>

definition brightness_to_char_idx :: "nat list" where
  "brightness_to_char_idx = map (\<lambda>i. (i * (length ASCII_CHARS - 1)) div 255) [0..<256]"

definition total_size :: "player \<Rightarrow> nat" where
  "total_size p = length (rgb_to_8bit_cache p) + length (color_cache_8bit p)
                  + length (color_cache_24bit p)"

definition count_hit :: "player \<Rightarrow> player" where
  "count_hit p = p\<lparr>cache_stats := (cache_stats p)\<lparr>hits := hits (cache_stats p) + 1\<rparr>\<rparr>"

definition count_miss :: "player \<Rightarrow> player" where
  "count_miss p = p\<lparr>cache_stats := (cache_stats p)\<lparr>misses := misses (cache_stats p) + 1\<rparr>\<rparr>"

definition set_cache_size :: "player \<Rightarrow> player" where
  "set_cache_size p = p\<lparr>cache_stats := (cache_stats p)\<lparr>cache_size := total_size p\<rparr>\<rparr>"

section \<open>Colour quantiser and colour cache\<close>

definition packRGB :: "int \<Rightarrow> int \<Rightarrow> int \<Rightarrow> 32 word" where
  "packRGB r g b = push_bit 16 (word_of_int r) OR push_bit 8 (word_of_int g) OR word_of_int b"

text \<open>The value \<^verbatim>\<open>rgbTo8BitColorCached\<close> computes on a miss (the \<^verbatim>\<open>int color\<close> block).\<close>

definition rgbTo8BitColor :: "int \<Rightarrow> int \<Rightarrow> int \<Rightarrow> int" where
  "rgbTo8BitColor r g b =
     (if r = g \<and> g = b then
        (if r < 8 then 16
         else if r > 248 then 231
         else trunc (f64 (f64 (of_int (r - 8) / 247) * 24)) + 232)
      else
        (let ir = trunc (f64 (f64 (of_int r / 255) * 5));
             ig = trunc (f64 (f64 (of_int g / 255) * 5));
             ib = trunc (f64 (f64 (of_int b / 255) * 5))
         in 16 + 36 * ir + 6 * ig + ib))"

definition rgbTo8BitColorCached :: "player \<Rightarrow> int \<Rightarrow> int \<Rightarrow> int \<Rightarrow> int \<times> player" where
  "rgbTo8BitColorCached p r g b =
     (let rgb_key = packRGB r g b in
      case map_of (rgb_to_8bit_cache p) rgb_key of
        Some c \<Rightarrow> (c, count_hit p)
      | None \<Rightarrow>
          (let p1 = count_miss p;
               color = rgbTo8BitColor r g b;
               p2 = p1\<lparr>rgb_to_8bit_cache := AList.update rgb_key color (rgb_to_8bit_cache p1)\<rparr>
           in (color, set_cache_size p2)))"

definition sgr :: "bool \<Rightarrow> string" where
  "sgr background = to_string (if background then 48 else 38)"

definition code_8bit :: "bool \<Rightarrow> int \<Rightarrow> string" where
  "code_8bit background color = ESC @ ''['' @ sgr background @ '';5;'' @ to_string color @ ''m''"

definition code_24bit :: "bool \<Rightarrow> int \<Rightarrow> int \<Rightarrow> int \<Rightarrow> string" where
  "code_24bit background r g b = ESC @ ''['' @ sgr background @ '';2;''
     @ to_string r @ '';'' @ to_string g @ '';'' @ to_string b @ ''m''"

definition getColorCodeCached :: "player \<Rightarrow> int \<Rightarrow> int \<Rightarrow> int \<Rightarrow> bool \<Rightarrow> string \<times> player" where
  "getColorCodeCached p r g b background =
     (case current_color_mode p of
        MONO \<Rightarrow> ('''', p)
      | COLOR_8BIT \<Rightarrow>
          (let key = ColorKey (word_of_int r) (word_of_int g) (word_of_int b) background in
           case map_of (color_cache_8bit p) key of
             Some code \<Rightarrow> (code, count_hit p)
           | None \<Rightarrow>
               (let p1 = count_miss p;
                    (color, p2) = rgbTo8BitColorCached p1 r g b;
                    code = code_8bit background color;
                    p3 = p2\<lparr>color_cache_8bit := AList.update key code (color_cache_8bit p2)\<rparr>
                in (code, set_cache_size p3)))
      | COLOR_24BIT \<Rightarrow>
          (let key = ColorKey (word_of_int r) (word_of_int g) (word_of_int b) background in
           case map_of (color_cache_24bit p) key of
             Some code \<Rightarrow> (code, count_hit p)
           | None \<Rightarrow>
               (let p1 = count_miss p;
                    code = code_24bit background r g b;
                    p3 = p1\<lparr>color_cache_24bit := AList.update key code (color_cache_24bit p1)\<rparr>
                in (code, set_cache_size p3))))"

definition resetColor :: "player \<Rightarrow> string" where
  "resetColor p = (if current_color_mode p \<noteq> MONO then ESC @ ''[0m'' else '''')"

definition setColorMode :: "ColorMode \<Rightarrow> player \<Rightarrow> player" where
  "setColorMode mode p =
     (if current_color_mode p \<noteq> mode then
        (let p1 = p\<lparr>current_color_mode := mode\<rparr>;
             p2 = (if mode \<noteq> COLOR_8BIT
                   then p1\<lparr>color_cache_8bit := [], rgb_to_8bit_cache := []\<rparr> else p1);
             p3 = (if mode \<noteq> COLOR_24BIT then p2\<lparr>color_cache_24bit := []\<rparr> else p2)
         in set_cache_size p3)
      else p)"

definition clearColorCaches :: "player \<Rightarrow> player" where
  "clearColorCaches p = p\<lparr>color_cache_8bit := [], color_cache_24bit := [],
     rgb_to_8bit_cache := [], cache_stats := \<lparr>hits = 0, misses = 0, cache_size = 0\<rparr>\<rparr>"

text \<open>A freshly constructed player: monochrome, empty caches, zeroed statistics.\<close>

definition new_player :: player where
  "new_player = \<lparr>current_color_mode = MONO, color_cache_8bit = [], color_cache_24bit = [],
     rgb_to_8bit_cache = [], cache_stats = \<lparr>hits = 0, misses = 0, cache_size = 0\<rparr>\<rparr>"

text \<open>A run of escape-code lookups, as the renderer issues them one after the other;
  a lookup is the argument tuple \<open>(r, g, b, background)\<close>.\<close>

type_synonym lookup = "int \<times> int \<times> int \<times> bool"


fun lookups :: "player \<Rightarrow> lookup list \<Rightarrow> player" where
  "lookups p [] = p"
| "lookups p ((r, g, b, bg) # ls) = lookups (snd (getColorCodeCached p r g b bg)) ls"

section \<open>Frame-to-text renderer\<close>

text \<open>A pixel is a \<^verbatim>\<open>cv::Vec3b\<close> in OpenCV's B, G, R order; a raster (\<^verbatim>\<open>cv::Mat\<close>) is
  the list of its rows. \<^verbatim>\<open>cv::Mat\<close> is rectangular: every row has \<open>mat_cols\<close> pixels.\<close>

datatype Vec3b = Vec3b (ch0: u8) (ch1: u8) (ch2: u8)

type_synonym mat = "Vec3b list list"

definition mat_rows :: "mat \<Rightarrow> int" where
  "mat_rows m = int (length m)"

definition mat_cols :: "mat \<Rightarrow> int" where
  "mat_cols m = (case m of [] \<Rightarrow> 0 | row # _ \<Rightarrow> int (length row))"

definition mat_empty :: "mat \<Rightarrow> bool" where
  "mat_empty m = (mat_rows m = 0 \<or> mat_cols m = 0)"

text \<open>The OpenCV calls are external collaborators: \<open>resize\<close> is \<^verbatim>\<open>cv::resize\<close> with
  \<^verbatim>\<open>INTER_AREA\<close> (\<open>None\<close> when it raises), \<open>gray_equalized\<close> is \<^verbatim>\<open>cv::cvtColor\<close> to
  grey followed by \<^verbatim>\<open>cv::equalizeHist\<close>.\<close>

record cv =
  resize :: "mat \<Rightarrow> int \<Rightarrow> int \<Rightarrow> mat option"
  gray_equalized :: "mat \<Rightarrow> u8 list list"

datatype fault = ResizeError | CastUndefined | ReserveError

text \<open>The sizing step of \<^verbatim>\<open>frameToAscii\<close> and \<^verbatim>\<open>frameToColorBlocks\<close> (the same
  statements in both): \<^verbatim>\<open>float\<close> arithmetic, every operation rounded. When
  \<^verbatim>\<open>target_height\<close> is 0 the quotient of the comparison is plus infinity, minus
  infinity or NaN for a positive, negative or zero \<^verbatim>\<open>target_width\<close>, and the
  comparison \<^verbatim>\<open>frame_aspect > ...\<close> is then false, true and false. The step runs
  for non-empty rasters only, so \<open>rows\<close> is positive. The conversion of the computed
  dimension to \<^verbatim>\<open>int\<close> is undefined outside the range of \<^verbatim>\<open>int\<close>: the result is then
  \<open>None\<close>.\<close>

definition char_aspect_ratio :: rat where
  "char_aspect_ratio = f32 (22 / 10)"

definition new_size :: "int \<Rightarrow> int \<Rightarrow> int \<Rightarrow> int \<Rightarrow> (int \<times> int) option" where
  "new_size cols rows target_width target_height =
     (let frame_aspect = f32 (f32 (of_int cols) / f32 (of_int rows));
          wider = (if target_height = 0 then target_width < 0
                   else frame_aspect > f32 (f32 (f32 (of_int target_width) * char_aspect_ratio)
                                            / f32 (of_int target_height)))
      in if wider then
           map_option (\<lambda>new_height. (target_width, new_height))
             (cast_int (f32 (f32 (f32 (of_int target_width) / frame_aspect) / char_aspect_ratio)))
         else
           map_option (\<lambda>new_width. (new_width, target_height))
             (cast_int (f32 (f32 (f32 (of_int target_height) * frame_aspect) * char_aspect_ratio))))"

text \<open>Auto-detection of the box from the terminal geometry \<open>(columns, rows)\<close>.\<close>

definition target_box :: "int \<times> int \<Rightarrow> int \<Rightarrow> int \<Rightarrow> int \<times> int" where
  "target_box term target_width target_height =
     (if target_width = 0 \<or> target_height = 0
      then (min (fst term - 2) 120, min (snd term - 3) 40)
      else (target_width, target_height))"

definition brightness :: "Vec3b \<Rightarrow> int" where
  "brightness pixel = trunc (f64 (f64 (f64 (f64 (299 / 1000) * of_int (uint (ch2 pixel)))
                                     + f64 (f64 (587 / 1000) * of_int (uint (ch1 pixel))))
                                + f64 (f64 (114 / 1000) * of_int (uint (ch0 pixel)))))"

text \<open>The glyph of a pixel in colour mode. The luma of every pixel is between 0 and 255
  (lemma \<open>glyph_in_range\<close> below), so both reads are inside their bounds.\<close>

definition glyph :: "Vec3b \<Rightarrow> char" where
  "glyph pixel = ASCII_CHARS ! (brightness_to_char_idx ! nat (brightness pixel))"

definition blank :: "Vec3b \<Rightarrow> char" where
  "blank pixel = CHR '' ''"

text \<open>The colour loop. \<^verbatim>\<open>frameToAscii\<close> (colour mode) and \<^verbatim>\<open>frameToColorBlocks\<close> run the
  same statements, with a foreground code and the glyph in the first and a background
  code and a space in the second. The loop's variables are the record \<open>scan\<close>.\<close>

record scan =
  ascii_frame :: string
  plr :: player
  lastColorCode :: string
  lastPixel :: Vec3b

definition colorPixel :: "bool \<Rightarrow> (Vec3b \<Rightarrow> char) \<Rightarrow> scan \<Rightarrow> Vec3b \<Rightarrow> scan" where
  "colorPixel background cell s pixel =
     (let s3 =
        (if pixel \<noteq> lastPixel s then
           (let (colorCode, p) = getColorCodeCached (plr s) (uint (ch2 pixel)) (uint (ch1 pixel))
                                   (uint (ch0 pixel)) background;
                s1 = s\<lparr>plr := p\<rparr>;
                s2 = (if colorCode \<noteq> lastColorCode s1
                      then s1\<lparr>ascii_frame := ascii_frame s1 @ colorCode, lastColorCode := colorCode\<rparr>
                      else s1)
            in s2\<lparr>lastPixel := pixel\<rparr>)
         else s)
      in s3\<lparr>ascii_frame := ascii_frame s3 @ [cell pixel]\<rparr>)"

definition colorLine :: "bool \<Rightarrow> (Vec3b \<Rightarrow> char) \<Rightarrow> scan \<Rightarrow> Vec3b list \<Rightarrow> scan" where
  "colorLine background cell s row =
     (let s1 = foldl (colorPixel background cell) s row
      in s1\<lparr>ascii_frame := ascii_frame s1 @ resetColor (plr s1) @ NL, lastColorCode := []\<rparr>)"

definition scan_start :: "player \<Rightarrow> scan" where
  "scan_start p = \<lparr>ascii_frame = [], plr = p, lastColorCode = [],
                    lastPixel = Vec3b 255 255 255\<rparr>"

definition colorLoop :: "bool \<Rightarrow> (Vec3b \<Rightarrow> char) \<Rightarrow> player \<Rightarrow> mat \<Rightarrow> string \<times> player" where
  "colorLoop background cell p resized =
     (let s = foldl (colorLine background cell) (scan_start p) resized
      in (ascii_frame s, plr s))"

definition monoLoop :: "u8 list list \<Rightarrow> string" where
  "monoLoop gray =
     concat (map (\<lambda>row. map (\<lambda>v. ASCII_CHARS ! (brightness_to_char_idx ! unat v)) row @ NL) gray)"

text \<open>\<^verbatim>\<open>ascii_frame.reserve(new_width * new_height * 20 + new_height)\<close>: the argument is
  computed in \<^verbatim>\<open>int\<close>. When a step leaves the range of \<^verbatim>\<open>int\<close> the arithmetic is
  undefined, and a negative argument converts to a \<^verbatim>\<open>size_t\<close> beyond \<^verbatim>\<open>max_size()\<close>,
  for which \<^verbatim>\<open>reserve\<close> throws \<^verbatim>\<open>std::length_error\<close>: the result is then \<open>None\<close>.\<close>

definition in_int :: "int \<Rightarrow> bool" where
  "in_int x = (- (2 ^ 31) \<le> x \<and> x < 2 ^ 31)"

definition reserve_size :: "int \<Rightarrow> int \<Rightarrow> int option" where
  "reserve_size new_width new_height =
     (let a = new_width * new_height; b = a * 20; n = b + new_height
      in if in_int a \<and> in_int b \<and> in_int n \<and> 0 \<le> n then Some n else None)"

definition frameToAscii ::
  "cv \<Rightarrow> int \<times> int \<Rightarrow> player \<Rightarrow> mat \<Rightarrow> int \<Rightarrow> int \<Rightarrow> fault + string \<times> player" where
  "frameToAscii ext term p frame target_width target_height =
     (if mat_empty frame then Inr ([], p)
      else
        (let (tw, th) = target_box term target_width target_height in
         case new_size (mat_cols frame) (mat_rows frame) tw th of
           None \<Rightarrow> Inl CastUndefined
         | Some (new_width, new_height) \<Rightarrow>
             (case resize ext frame new_width new_height of
                None \<Rightarrow> Inl ResizeError
              | Some resized \<Rightarrow>
                  (case reserve_size new_width new_height of
                     None \<Rightarrow> Inl ReserveError
                   | Some n \<Rightarrow>
                       if current_color_mode p = MONO
                       then Inr (monoLoop (gray_equalized ext resized), p)
                       else Inr (colorLoop False glyph p resized)))))"

definition frameToColorBlocks ::
  "cv \<Rightarrow> int \<times> int \<Rightarrow> player \<Rightarrow> mat \<Rightarrow> int \<Rightarrow> int \<Rightarrow> fault + string \<times> player" where
  "frameToColorBlocks ext term p frame target_width target_height =
     (if mat_empty frame \<or> current_color_mode p = MONO
      then frameToAscii ext term p frame target_width target_height
      else
        (let (tw, th) = target_box term target_width target_height in
         case new_size (mat_cols frame) (mat_rows frame) tw th of
           None \<Rightarrow> Inl CastUndefined
         | Some (new_width, new_height) \<Rightarrow>
             (case resize ext frame new_width new_height of
                None \<Rightarrow> Inl ResizeError
              | Some resized \<Rightarrow>
                  (case reserve_size new_width new_height of
                     None \<Rightarrow> Inl ReserveError
                   | Some n \<Rightarrow> Inr (colorLoop True blank p resized)))))"

section \<open>Playback controller\<close>

text \<open>The local variables of \<^verbatim>\<open>playVideoAscii\<close> together with the player object
  (\<open>this\<close>). \<^verbatim>\<open>playFromCamera\<close> has the same variables except \<open>paused\<close>,
  \<open>speed_multiplier\<close> and \<open>frame_number\<close>, which its loop never reads or writes.\<close>

record playback =
  paused :: bool
  speed_multiplier :: rat
  block_mode :: bool
  fullscreen_mode :: bool
  width :: int
  height :: int
  original_width :: int
  original_height :: int
  frame_number :: int
  frame :: mat
  this :: player

definition next_mode :: "ColorMode \<Rightarrow> ColorMode" where
  "next_mode m = (case m of MONO \<Rightarrow> COLOR_8BIT | COLOR_8BIT \<Rightarrow> COLOR_24BIT | COLOR_24BIT \<Rightarrow> MONO)"

definition toggle_fullscreen :: "int \<times> int \<Rightarrow> playback \<Rightarrow> playback" where
  "toggle_fullscreen term pb =
     (let pb1 = pb\<lparr>fullscreen_mode := \<not> fullscreen_mode pb\<rparr>
      in if fullscreen_mode pb1
         then pb1\<lparr>width := fst term - 2, height := snd term - 4\<rparr>
         else pb1\<lparr>width := original_width pb1, height := original_height pb1\<rparr>)"

text \<open>The \<^verbatim>\<open>switch\<close> of \<^verbatim>\<open>playVideoAscii\<close>; \<open>None\<close> is \<^verbatim>\<open>goto cleanup\<close>. The case
  \<^verbatim>\<open>'f'\<close> has no \<^verbatim>\<open>break\<close> and runs on into the statements of the case \<^verbatim>\<open>'r'\<close>.\<close>

definition video_key :: "int \<times> int \<Rightarrow> char \<Rightarrow> playback \<Rightarrow> playback option" where
  "video_key term key pb =
     (if key = CHR ''q'' \<or> key = CHR ''Q'' \<or> key = CHR 0x1B then None
      else if key = CHR '' '' then Some (pb\<lparr>paused := \<not> paused pb\<rparr>)
      else if key = CHR ''+'' \<or> key = CHR ''='' then
        Some (pb\<lparr>speed_multiplier := min (f64 (speed_multiplier pb * (3 / 2))) 5\<rparr>)
      else if key = CHR ''-'' \<or> key = CHR ''_'' then
        Some (pb\<lparr>speed_multiplier := max (f64 (speed_multiplier pb / (3 / 2))) (f64 (1 / 5))\<rparr>)
      else if key = CHR ''c'' \<or> key = CHR ''C'' then
        Some (pb\<lparr>this := setColorMode (next_mode (current_color_mode (this pb))) (this pb)\<rparr>)
      else if key = CHR ''b'' \<or> key = CHR ''B'' then Some (pb\<lparr>block_mode := \<not> block_mode pb\<rparr>)
      else if key = CHR ''f'' \<or> key = CHR ''F'' then
        (let pb1 = toggle_fullscreen term pb
         in Some (pb1\<lparr>this := clearColorCaches (this pb1)\<rparr>))
      else if key = CHR ''r'' \<or> key = CHR ''R'' then
        Some (pb\<lparr>this := clearColorCaches (this pb)\<rparr>)
      else Some pb)"

text \<open>The \<^verbatim>\<open>if\<close>/\<^verbatim>\<open>else if\<close> chain of \<^verbatim>\<open>playFromCamera\<close>. The key \<^verbatim>\<open>'s'\<close> clears the
  screen and waits for a key; it changes no variable.\<close>

definition camera_key :: "int \<times> int \<Rightarrow> char \<Rightarrow> playback \<Rightarrow> playback option" where
  "camera_key term key pb =
     (if key = CHR ''q'' \<or> key = CHR ''Q'' then None
      else if key = CHR ''c'' \<or> key = CHR ''C'' then
        Some (pb\<lparr>this := setColorMode (next_mode (current_color_mode (this pb))) (this pb)\<rparr>)
      else if key = CHR ''b'' \<or> key = CHR ''B'' then Some (pb\<lparr>block_mode := \<not> block_mode pb\<rparr>)
      else if key = CHR ''s'' \<or> key = CHR ''S'' then Some pb
      else if key = CHR ''r'' \<or> key = CHR ''R'' then
        Some (pb\<lparr>this := clearColorCaches (this pb)\<rparr>)
      else if key = CHR ''f'' \<or> key = CHR ''F'' then Some (toggle_fullscreen term pb)
      else Some pb)"

text \<open>\<^verbatim>\<open>while (read(STDIN_FILENO, &key, 1) > 0)\<close> over the keys that are pending.\<close>

fun process_keys :: "int \<times> int \<Rightarrow> char list \<Rightarrow> playback \<Rightarrow> playback option" where
  "process_keys term [] pb = Some pb"
| "process_keys term (key # keys) pb =
     (case video_key term key pb of None \<Rightarrow> None | Some pb1 \<Rightarrow> process_keys term keys pb1)"

text \<open>One iteration of the \<^verbatim>\<open>while (true)\<close> loop of \<^verbatim>\<open>playVideoAscii\<close>. Its inputs are
  the pending keys, the terminal geometry, the frames the capture still holds and the
  milliseconds the clock shows since \<^verbatim>\<open>last_time\<close>; its outputs are the new variables,
  the remaining frames and what was written and slept. The text of the status line is
  not modelled.\<close>

datatype effect = Print string | StatusLine | Sleep int

datatype tick = Cleanup | EndOfStream | Next playback "mat list" "effect list"

definition base_delay :: "rat \<Rightarrow> rat" where
  "base_delay fps = (if 0 < fps then f64 (1000 / fps) else f64 (3333 / 100))"

text \<open>The pacing at the end of a tick. \<^verbatim>\<open>elapsed\<close> is an integer count of milliseconds
  and is converted to \<^verbatim>\<open>double\<close> for the comparison and the subtraction. The sleep is
  \<^verbatim>\<open>static_cast<int>(current_delay - elapsed)\<close>, which is undefined outside the range
  of \<^verbatim>\<open>int\<close>: the result is then \<open>None\<close>.\<close>

definition pacing :: "rat \<Rightarrow> playback \<Rightarrow> int \<Rightarrow> effect list option" where
  "pacing delay pb elapsed =
     (let current_delay = f64 (delay / speed_multiplier pb)
      in if f64 (of_int elapsed) < current_delay
         then map_option (\<lambda>ms. [Sleep ms])
                (cast_int (f64 (current_delay - f64 (of_int elapsed))))
         else Some [])"

definition clear_home :: string where
  "clear_home = ESC @ ''[2J'' @ ESC @ ''[H''"

definition draw :: "cv \<Rightarrow> int \<times> int \<Rightarrow> playback \<Rightarrow> fault + playback \<times> effect list" where
  "draw ext term pb =
     (if \<not> mat_empty (frame pb) then
        (case (if block_mode pb \<and> current_color_mode (this pb) \<noteq> MONO
               then frameToColorBlocks ext term (this pb) (frame pb) (width pb) (height pb)
               else frameToAscii ext term (this pb) (frame pb) (width pb) (height pb)) of
           Inl e \<Rightarrow> Inl e
         | Inr (ascii, p) \<Rightarrow> Inr (pb\<lparr>this := p\<rparr>, [Print clear_home, Print ascii, StatusLine]))
      else Inr (pb, [Print clear_home]))"

definition video_tick ::
  "cv \<Rightarrow> int \<times> int \<Rightarrow> rat \<Rightarrow> char list \<Rightarrow> int \<Rightarrow> playback \<Rightarrow> mat list \<Rightarrow> fault + tick" where
  "video_tick ext term delay keys elapsed pb cap =
     (case process_keys term keys pb of
        None \<Rightarrow> Inr Cleanup
      | Some pb1 \<Rightarrow>
          (case (if \<not> paused pb1 then
                   (case cap of
                      [] \<Rightarrow> None
                    | f # cap' \<Rightarrow> if mat_empty f then None
                                  else Some (pb1\<lparr>frame := f, frame_number := frame_number pb1 + 1\<rparr>, cap'))
                 else Some (pb1, cap)) of
             None \<Rightarrow> Inr EndOfStream
           | Some (pb2, cap2) \<Rightarrow>
               (case draw ext term pb2 of
                  Inl e \<Rightarrow> Inl e
                | Inr (pb3, out) \<Rightarrow>
                    (case pacing delay pb3 elapsed of
                       None \<Rightarrow> Inl CastUndefined
                     | Some sl \<Rightarrow> Inr (Next pb3 cap2 (out @ sl))))))"

section \<open>Concrete inputs\<close>

text \<open>The variables of \<^verbatim>\<open>playVideoAscii\<close> when its loop is entered with no size given
  on the command line, for a freshly constructed player.\<close>

definition playback0 :: playback where
  "playback0 = \<lparr>paused = False, speed_multiplier = 1, block_mode = False,
     fullscreen_mode = False, width = 0, height = 0, original_width = 0, original_height = 0,
     frame_number = 0, frame = [], this = new_player\<rparr>"

definition fresh :: "ColorMode \<Rightarrow> player" where
  "fresh m = new_player\<lparr>current_color_mode := m\<rparr>"

text \<open>The same variables after the renderer has looked one colour up twice in true-colour
  mode: one miss, one hit, one cached code.\<close>

definition playback_warm :: playback where
  "playback_warm =
     playback0\<lparr>this := lookups (fresh COLOR_24BIT) [(255, 0, 0, False), (255, 0, 0, False)]\<rparr>"

text \<open>A stand-in for the OpenCV collaborators on rasters of one colour: the area average
  of a uniform raster is the uniform raster of the new size, \<^verbatim>\<open>cv::resize\<close> raises on an
  empty size, and the grey value is taken from the green channel.\<close>

definition cv0 :: cv where
  "cv0 = \<lparr>resize = (\<lambda>m w h. if 0 < w \<and> 0 < h
                             then Some (replicate (nat h) (replicate (nat w) (hd (hd m))))
                             else None),
           gray_equalized = map (map ch1)\<rparr>"

definition red :: Vec3b where
  "red = Vec3b 0 0 255"

definition white :: Vec3b where
  "white = Vec3b 255 255 255"

text \<open>Every cached escape code starts with the escape character. This holds in every
  state the player reaches: the caches start empty and only \<^verbatim>\<open>getColorCodeCached\<close>
  stores codes.\<close>

definition codes_ok :: "player \<Rightarrow> bool" where
  "codes_ok p = (list_all (\<lambda>kc. take 1 (snd kc) = ESC) (color_cache_8bit p)
               \<and> list_all (\<lambda>kc. take 1 (snd kc) = ESC) (color_cache_24bit p))"

text \<open>The escape code the cache returns for a pixel, as foreground or background.\<close>

definition code_of :: "player \<Rightarrow> bool \<Rightarrow> Vec3b \<Rightarrow> string" where
  "code_of p background pixel =
     fst (getColorCodeCached p (uint (ch2 pixel)) (uint (ch1 pixel)) (uint (ch0 pixel)) background)"

section \<open>Properties of the rounding model\<close>

lemma rne_ge_floor: "\<lfloor>x\<rfloor> \<le> rne x"
  by (simp add: rne_def Let_def)

lemma rne_le_ceiling: "rne x \<le> \<lceil>x\<rceil>"
proof -
  have "x \<noteq> of_int \<lfloor>x\<rfloor> \<Longrightarrow> \<lfloor>x\<rfloor> + 1 \<le> \<lceil>x\<rceil>"
    by (metis ceiling_altdef order_refl)
  moreover have "x = of_int \<lfloor>x\<rfloor> \<Longrightarrow> rne x = \<lfloor>x\<rfloor>"
    by (simp add: rne_def Let_def)
  ultimately show ?thesis
    by (cases "x = of_int \<lfloor>x\<rfloor>") (auto simp: rne_def Let_def)
qed

lemma rne_err: "\<bar>of_int (rne x) - x\<bar> \<le> 1 / 2"
proof -
  have "of_int \<lfloor>x\<rfloor> \<le> x" and "x < of_int \<lfloor>x\<rfloor> + 1" by linarith+
  then show ?thesis by (auto simp: rne_def Let_def abs_le_iff)
qed

lemma bitlen_powi:
  assumes "0 < a"
  shows "(2::rat) powi (bitlen a - 1) \<le> of_int a" and "of_int a < (2::rat) powi bitlen a"
proof -
  from bitlen_bounds [OF assms]
  have lo: "2 ^ nat (bitlen a - 1) \<le> a" and hi: "a < 2 ^ nat (bitlen a)" by auto
  have b1: "1 \<le> bitlen a" using assms by (auto simp: bitlen_alt_def)
  have "(of_int (2 ^ nat (bitlen a - 1)) :: rat) \<le> of_int a" using lo by (simp only: of_int_le_iff)
  then show "(2::rat) powi (bitlen a - 1) \<le> of_int a" using b1 by (simp add: power_int_def)
  have "(of_int a :: rat) < of_int (2 ^ nat (bitlen a))" using hi by (simp only: of_int_less_iff)
  then show "of_int a < (2::rat) powi bitlen a" using b1 by (simp add: power_int_def)
qed

lemma p2div: "(2::rat) powi m / 2 powi n = 2 powi (m - n)"
  by (rule power_int_diff [symmetric]) simp

lemma p2mult: "(2::rat) powi m * 2 powi n = 2 powi (m + n)"
  by (rule power_int_add [symmetric]) simp

lemma p2pos: "(0::rat) < 2 powi n"
  by (simp add: zero_less_power_int)

lemma p2int: "0 \<le> n \<Longrightarrow> (2::rat) powi n = of_int (2 ^ nat n)"
  by (simp add: power_int_def)

lemma fexp_bounds:
  assumes "0 < x"
  shows "2 powi (int p - 1) \<le> x / 2 powi fexp p x" and "x / 2 powi fexp p x < 2 powi int p"
proof -
  obtain a b where q: "quotient_of x = (a, b)" by (cases "quotient_of x")
  have bpos: "0 < b" using q by (rule quotient_of_denom_pos)
  have xe: "x = of_int a / of_int b" using q by (rule quotient_of_div)
  have apos: "0 < a" using assms bpos xe by (simp add: zero_less_divide_iff)
  define la lb k where "la = bitlen a" and "lb = bitlen b" and "k = la - lb - int p"
  note A = bitlen_powi [OF apos, folded la_def]
  note B = bitlen_powi [OF bpos, folded lb_def]
  have bq: "(0::rat) < of_int b" using bpos by simp
  have "x < 2 powi la / 2 powi (lb - 1)"
    unfolding xe using A B bq p2pos [of "lb - 1"] p2pos [of la]
    by (meson frac_less less_eq_rat_def of_int_0_less_iff apos)
  then have hi: "x < 2 powi (la - lb + 1)"
    unfolding p2div by (simp add: algebra_simps)
  have "2 powi (la - 1) / 2 powi lb < x"
    unfolding xe using A B bq p2pos [of "lb"] p2pos [of "la - 1"]
    by (smt (verit) frac_less2 less_eq_rat_def)
  then have lo: "2 powi (la - lb - 1) < x"
    unfolding p2div by (simp add: algebra_simps)
  have fe: "fexp p x = (if x < 2 powi (k + int p) then k else k + 1)"
    by (simp add: fexp_def q la_def lb_def k_def Let_def)
  show "2 powi (int p - 1) \<le> x / 2 powi fexp p x"
  proof (cases "x < 2 powi (k + int p)")
    case True
    have "2 powi (int p - 1) * 2 powi k = (2::rat) powi (la - lb - 1)"
      unfolding p2mult by (simp add: k_def algebra_simps)
    then show ?thesis using True lo fe p2pos [of k] by (simp add: pos_le_divide_eq)
  next
    case False
    have "2 powi (int p - 1) * 2 powi (k + 1) = (2::rat) powi (k + int p)"
      unfolding p2mult by (simp add: k_def algebra_simps)
    then show ?thesis using False fe p2pos [of "k + 1"] by (simp add: pos_le_divide_eq)
  qed
  show "x / 2 powi fexp p x < 2 powi int p"
  proof (cases "x < 2 powi (k + int p)")
    case True
    have "2 powi (int p) * 2 powi k = (2::rat) powi (k + int p)"
      unfolding p2mult by (simp add: k_def algebra_simps)
    then show ?thesis using True fe p2pos [of k] by (simp add: pos_divide_less_eq)
  next
    case False
    have "2 powi (int p) * 2 powi (k + 1) = (2::rat) powi (la - lb + 1)"
      unfolding p2mult by (simp add: k_def algebra_simps)
    then show ?thesis using False hi fe p2pos [of "k + 1"] by (simp add: pos_divide_less_eq)
  qed
qed

lemma rnd_zero: "rnd p 0 = 0"
  by (simp add: rnd_def)

lemma rnd_pos: "0 < y \<Longrightarrow> rnd p y = of_int (rne (y / 2 powi fexp p y)) * 2 powi fexp p y"
  by (simp add: rnd_def Let_def)

lemma rnd_nonneg: "0 \<le> y \<Longrightarrow> 0 \<le> rnd p y"
proof (cases "y = 0")
  case True then show ?thesis by (simp add: rnd_def)
next
  case False
  assume "0 \<le> y"
  with False have y: "0 < y" by simp
  have "0 \<le> y / 2 powi fexp p y" using y by (simp add: zero_less_power_int)
  then have "0 \<le> \<lfloor>y / 2 powi fexp p y\<rfloor>" by simp
  then have "0 \<le> rne (y / 2 powi fexp p y)" using rne_ge_floor order_trans by blast
  then show ?thesis using y by (simp add: rnd_pos zero_less_power_int)
qed

lemma small_mantissa:
  assumes "0 < p" "m < 2 ^ p" "k < e"
  shows "of_int m * 2 powi (k - e) < (2::rat) powi (int p - 1)"
proof -
  have "(of_int m :: rat) < of_int (2 ^ p)" using assms(2) by (simp only: of_int_less_iff)
  then have m: "(of_int m :: rat) < 2 powi int p" by simp
  have "(2::rat) powi (k - e) \<le> 2 powi (- 1)"
    using assms(3) by (intro power_int_increasing) auto
  then have "of_int m * (2::rat) powi (k - e) < 2 powi int p * 2 powi (- 1)"
    using m by (smt (verit) mult_less_le_imp_less zero_less_power_int mult_nonneg_nonneg
        mult_le_0_iff not_less order_less_le of_int_0_le_iff zero_less_numeral linorder_not_le
        mult_strict_right_mono mult_left_mono order_le_less_trans)
  then show ?thesis unfolding p2mult by simp
qed

text \<open>Rounding never crosses a representable number: a number \<open>m * 2^k\<close> with a
  \<open>p\<close>-bit significand that bounds \<open>y\<close> bounds the rounded \<open>y\<close> as well.\<close>

lemma rnd_ge:
  assumes p: "0 < p" and m: "0 < m" "m < 2 ^ p" and le: "of_int m * 2 powi k \<le> y"
  shows "of_int m * 2 powi k \<le> rnd p y"
proof -
  have "(0::rat) < of_int m * 2 powi k" using m(1) p2pos [of k] by simp
  with le have y: "0 < y" by simp
  define e where "e = fexp p y"
  define z where "z = y / 2 powi e"
  have zlo: "2 powi (int p - 1) \<le> z" unfolding z_def e_def using y by (rule fexp_bounds)
  have "of_int m * 2 powi k / 2 powi e \<le> z"
    unfolding z_def using le p2pos [of e] by (simp add: divide_right_mono)
  then have az: "of_int m * 2 powi (k - e) \<le> z"
    by (simp add: p2div [symmetric])
  have "of_int m * 2 powi (k - e) \<le> (of_int \<lfloor>z\<rfloor> :: rat)"
  proof (cases "e \<le> k")
    case True
    then have pw: "(2::rat) powi (k - e) = of_int (2 ^ nat (k - e))" by (intro p2int) simp
    then have "(of_int (m * 2 ^ nat (k - e)) :: rat) \<le> z" using az by simp
    then have "m * 2 ^ nat (k - e) \<le> \<lfloor>z\<rfloor>" by (simp only: le_floor_iff)
    then have "(of_int (m * 2 ^ nat (k - e)) :: rat) \<le> of_int \<lfloor>z\<rfloor>" by (simp only: of_int_le_iff)
    then show ?thesis using pw by simp
  next
    case False
    then have s: "of_int m * 2 powi (k - e) < (2::rat) powi (int p - 1)"
      using p m(2) by (intro small_mantissa) auto
    have i: "(2::rat) powi (int p - 1) = of_int (2 ^ nat (int p - 1))"
      using p by (intro p2int) simp
    have "(of_int (2 ^ nat (int p - 1)) :: rat) \<le> z" using zlo unfolding i .
    then have "2 ^ nat (int p - 1) \<le> \<lfloor>z\<rfloor>" by (simp only: le_floor_iff)
    then have "(2::rat) powi (int p - 1) \<le> of_int \<lfloor>z\<rfloor>"
      unfolding i by (simp only: of_int_le_iff)
    with s show ?thesis by linarith
  qed
  also have "\<dots> \<le> of_int (rne z)" using rne_ge_floor [of z] by (simp only: of_int_le_iff)
  finally have F1: "of_int m * 2 powi (k - e) * 2 powi e \<le> of_int (rne z) * (2::rat) powi e"
    using p2pos [of e] by (simp add: mult_right_mono)
  have F2: "of_int m * 2 powi (k - e) * 2 powi e = of_int m * (2::rat) powi k"
    by (simp add: mult.assoc p2mult)
  have F3: "rnd p y = of_int (rne z) * 2 powi e" unfolding z_def e_def using y by (rule rnd_pos)
  show ?thesis using F1 unfolding F2 F3 .
qed

lemma rnd_le:
  assumes p: "0 < p" and m: "m < 2 ^ p" and y: "0 \<le> y" and le: "y \<le> of_int m * 2 powi k"
  shows "rnd p y \<le> of_int m * 2 powi k"
proof (cases "y = 0")
  case True
  then show ?thesis using le by (simp add: rnd_zero)
next
  case False
  with y have y: "0 < y" by simp
  define e where "e = fexp p y"
  define z where "z = y / 2 powi e"
  have zlo: "2 powi (int p - 1) \<le> z" unfolding z_def e_def using y by (rule fexp_bounds)
  have "z \<le> of_int m * 2 powi k / 2 powi e"
    unfolding z_def using le p2pos [of e] by (simp add: divide_right_mono)
  then have az: "z \<le> of_int m * 2 powi (k - e)"
    by (simp add: p2div [symmetric])
  have ek: "e \<le> k"
  proof (rule ccontr)
    assume "\<not> e \<le> k"
    then have "of_int m * 2 powi (k - e) < (2::rat) powi (int p - 1)"
      using p m by (intro small_mantissa) auto
    with az zlo show False by simp
  qed
  then have pw: "(2::rat) powi (k - e) = of_int (2 ^ nat (k - e))" by (intro p2int) simp
  then have "z \<le> of_int (m * 2 ^ nat (k - e))" using az by simp
  then have "\<lceil>z\<rceil> \<le> m * 2 ^ nat (k - e)" by (simp only: ceiling_le_iff)
  then have "rne z \<le> m * 2 ^ nat (k - e)" using rne_le_ceiling [of z] by simp
  then have "(of_int (rne z) :: rat) \<le> of_int (m * 2 ^ nat (k - e))" by (simp only: of_int_le_iff)
  then have "of_int (rne z) \<le> of_int m * (2::rat) powi (k - e)" using pw by simp
  then have F1: "of_int (rne z) * 2 powi e \<le> of_int m * (2::rat) powi (k - e) * 2 powi e"
    using p2pos [of e] by (simp add: mult_right_mono)
  have F2: "of_int m * 2 powi (k - e) * 2 powi e = of_int m * (2::rat) powi k"
    by (simp add: mult.assoc p2mult)
  have F3: "rnd p y = of_int (rne z) * 2 powi e" unfolding z_def e_def using y by (rule rnd_pos)
  show ?thesis using F1 unfolding F2 F3 .
qed

text \<open>The relative error of one rounding is at most \<open>2^-p\<close>.\<close>

lemma rnd_err:
  assumes p: "0 < p" and y: "0 < y"
  shows "\<bar>rnd p y - y\<bar> \<le> y / 2 ^ p"
proof -
  define e where "e = fexp p y"
  define z where "z = y / 2 powi e"
  have zlo: "2 powi (int p - 1) \<le> z" unfolding z_def e_def using y by (rule fexp_bounds)
  have F3: "rnd p y = of_int (rne z) * 2 powi e" unfolding z_def e_def using y by (rule rnd_pos)
  have yz: "y = z * 2 powi e" using p2pos [of e] by (simp add: z_def)
  have "rnd p y - y = of_int (rne z) * 2 powi e - z * 2 powi e"
    by (simp only: F3 yz [symmetric])
  then have "rnd p y - y = (of_int (rne z) - z) * 2 powi e"
    by (simp only: left_diff_distrib)
  then have "\<bar>rnd p y - y\<bar> = \<bar>of_int (rne z) - z\<bar> * 2 powi e"
    using p2pos [of e] by (simp add: abs_mult)
  also have "\<dots> \<le> 1 / 2 * 2 powi e"
    using rne_err [of z] p2pos [of e] by (intro mult_right_mono) auto
  also have "\<dots> \<le> (z / 2 ^ p) * 2 powi e"
  proof -
    have "(2::rat) powi (int p - 1) = 2 ^ p / 2"
      using p by (simp add: power_int_diff)
    then have "(2::rat) ^ p / 2 \<le> z" using zlo by simp
    then have "1 / 2 \<le> z / 2 ^ p" by (simp add: field_simps)
    then show ?thesis using p2pos [of e] by (intro mult_right_mono) auto
  qed
  also have "\<dots> = z * 2 powi e / 2 ^ p" by simp
  finally show ?thesis by (simp only: yz [symmetric])
qed

lemma trunc_eq:
  assumes "of_int n \<le> x" "x < of_int n + 1" "0 \<le> n"
  shows "trunc x = n"
proof -
  have "0 \<le> x" using assms by (smt (verit) of_int_0_le_iff order_trans)
  moreover have "\<lfloor>x\<rfloor> = n" using assms by linarith
  ultimately show ?thesis by (simp add: trunc_def)
qed

lemma trunc_nonneg: "0 \<le> x \<Longrightarrow> 0 \<le> trunc x"
  by (simp add: trunc_def)

lemma ramp_mod_pos:
  assumes "0 < (k::int)" "k \<le> 240"
  shows "1 \<le> (24 * k) mod 247"
proof -
  have "\<not> 247 dvd 24 * k"
  proof
    assume "247 dvd 24 * k"
    moreover have "coprime (247::int) 24" by code_simp
    ultimately have "247 dvd k" by (simp add: coprime_dvd_mult_right_iff)
    then have "247 \<le> k" using assms(1) by (rule zdvd_imp_le)
    with assms(2) show False by simp
  qed
  then have "(24 * k) mod 247 \<noteq> 0" by (simp add: mod_eq_0_iff_dvd)
  moreover have "0 \<le> (24 * k) mod 247" by simp
  ultimately show ?thesis by linarith
qed

lemma ramp_div_bounds:
  assumes "0 < (k::int)" "k \<le> 240"
  shows "0 \<le> (24 * k) div 247" and "(24 * k) div 247 \<le> 23"
proof -
  show "0 \<le> (24 * k) div 247" using assms by (simp add: pos_imp_zdiv_nonneg_iff)
  have "(24 * k) div 247 \<le> (24 * 240) div 247" using assms by (intro zdiv_mono1) auto
  then show "(24 * k) div 247 \<le> 23" by simp
qed


text \<open>The grey ramp of the quantiser: between 8 and 248 the two rounded operations and
  the truncation give exactly the integer quotient.\<close>

lemma gray_ramp:
  assumes "8 \<le> v" "v \<le> 248"
  shows "trunc (f64 (f64 (of_int (v - 8) / 247) * 24)) = (24 * (v - 8)) div 247"
proof (cases "v = 8")
  case True
  then show ?thesis by (simp add: f64_def rnd_zero trunc_def)
next
  case False
  define k where "k = v - 8"
  define n where "n = (24 * k) div 247"
  define r where "r = (24 * k) mod 247"
  have k: "0 < k" "k \<le> 240" using assms False by (auto simp: k_def)
  have r: "1 \<le> r" "r \<le> 246"
    using ramp_mod_pos [OF k] pos_mod_bound [of 247 "24 * k"] by (simp_all add: r_def)
  have n: "0 \<le> n" "n \<le> 23" using ramp_div_bounds [OF k] by (simp_all add: n_def)
  have kd: "24 * k = 247 * n + r" by (simp add: n_def r_def)
  define q :: rat where "q = of_int k / 247"
  have "(of_int (24 * k) :: rat) = of_int (247 * n + r)" by (simp only: kd)
  then have q24: "24 * q = of_int n + of_int r / 247" by (simp add: q_def)
  have qpos: "0 < q" using k by (simp add: q_def)
  have qle: "q \<le> 1" using k by (simp add: q_def)
  define t where "t = f64 q"
  define u :: rat where "u = 1 / 2 ^ 53"
  have "\<bar>t - q\<bar> \<le> q / 2 ^ 53" unfolding t_def f64_def using qpos by (intro rnd_err) simp
  also have "\<dots> \<le> 1 / 2 ^ 53" using qle by (intro divide_right_mono) simp_all
  finally have "\<bar>t - q\<bar> \<le> u" by (simp only: u_def)
  then have terr: "q - u \<le> t" "t \<le> q + u" by linarith+
  have u: "0 \<le> u" "u \<le> 1 / 1000000" by (simp_all add: u_def)
  have rq: "(1::rat) \<le> of_int r" "(of_int r :: rat) \<le> 246" using r by simp_all
  have nq: "(0::rat) \<le> of_int n" "(of_int n :: rat) \<le> 23" using n by simp_all
  define y where "y = t * 24"
  have ylo: "of_int n \<le> y" unfolding y_def using terr(1) q24 rq(1) u by linarith
  have yhi: "y \<le> of_int n + 1 - 1 / 1024" unfolding y_def using terr(2) q24 rq(2) u by linarith
  have lo: "of_int n \<le> f64 y"
  proof (cases "n = 0")
    case True
    then show ?thesis using ylo by (simp add: f64_def rnd_nonneg)
  next
    case False
    with n have "0 < n" by simp
    moreover have "n < 2 ^ 53" using n by simp
    ultimately have "of_int n * 2 powi 0 \<le> rnd 53 y"
      using ylo by (intro rnd_ge) simp_all
    then show ?thesis by (simp add: f64_def)
  qed
  have "1024 * n + 1023 < 2 ^ 53" using n by simp
  moreover have "0 \<le> y" using ylo nq by linarith
  moreover have "y \<le> of_int (1024 * n + 1023) * 2 powi (- 10)"
    using yhi by (simp add: power_int_minus field_simps)
  ultimately have "rnd 53 y \<le> of_int (1024 * n + 1023) * 2 powi (- 10)"
    by (intro rnd_le) simp_all
  then have hi: "f64 y < of_int n + 1"
    by (simp add: f64_def power_int_minus field_simps)
  have "trunc (f64 y) = n" using lo hi n(1) by (rule trunc_eq)
  then show ?thesis by (simp add: y_def t_def q_def k_def n_def)
qed

lemma rnd_gt0:
  assumes "0 < p" "0 < y"
  shows "0 < rnd p y"
proof -
  define z where "z = y / 2 powi fexp p y"
  have "2 powi (int p - 1) \<le> z" unfolding z_def using assms(2) by (rule fexp_bounds)
  moreover have "(1::rat) \<le> 2 powi (int p - 1)"
    using assms(1) by (intro one_le_power_int) simp_all
  ultimately have "1 \<le> z" by linarith
  then have "1 \<le> \<lfloor>z\<rfloor>" by simp
  then have "1 \<le> rne z" using rne_ge_floor [of z] by linarith
  then have "(0::rat) < of_int (rne z)" by simp
  then show ?thesis using assms(2) p2pos [of "fexp p y"] by (simp add: rnd_pos z_def)
qed

lemma cast_int_Some:
  assumes "0 \<le> x" "x \<le> of_int n" "n < 2 ^ 31"
  shows "cast_int x = Some (trunc x)" and "0 \<le> trunc x"
proof -
  have t: "trunc x = \<lfloor>x\<rfloor>" using assms(1) by (simp add: trunc_def)
  have "\<lfloor>x\<rfloor> \<le> n" using assms(2) by (simp add: floor_le_iff)
  moreover have "0 \<le> \<lfloor>x\<rfloor>" using assms(1) by simp
  moreover have "(of_int n :: rat) < 2 ^ 31" using assms(3) by (simp only: of_int_less_numeral_power_cancel_iff)
  then have "x < 2 ^ 31" using assms(2) by linarith
  ultimately show "cast_int x = Some (trunc x)" and "0 \<le> trunc x"
    using assms(3) by (simp_all add: cast_int_def t)
qed

section \<open>The grey ramp of the quantiser\<close>

text \<open>Claim C7, as the code has it. For an achromatic input \<open>v\<close> between 0 and 255 the
  index lies in \<open>{16, 231} \<union> [232, 255]\<close>: it is 16 below 8, 231 above 248 and
  \<open>232 + \<lfloor>24 (v - 8) / 247\<rfloor>\<close> in between; black gives 16 and white 231. The index is
  non-decreasing in \<open>v\<close> up to 248 only.\<close>

theorem gray_index:
  assumes "0 \<le> v" and "v \<le> w" and "w \<le> 255"
  shows "rgbTo8BitColor v v v \<in> {16, 231} \<union> {232..255}
       \<and> rgbTo8BitColor v v v = (if v < 8 then 16 else if 248 < v then 231
                                   else 232 + (24 * (v - 8)) div 247)
       \<and> (w \<le> 248 \<longrightarrow> rgbTo8BitColor v v v \<le> rgbTo8BitColor w w w)
       \<and> rgbTo8BitColor 0 0 0 = 16 \<and> rgbTo8BitColor 255 255 255 = 231"
proof -
  have eq: "rgbTo8BitColor x x x = (if x < 8 then 16 else if 248 < x then 231
              else 232 + (24 * (x - 8)) div 247)" for x
    using gray_ramp [of x] by (simp add: rgbTo8BitColor_def)
  have rng: "0 \<le> (24 * (x - 8)) div 247 \<and> (24 * (x - 8)) div 247 \<le> 23"
    if "8 \<le> x" "x \<le> 248" for x :: int
  proof (cases "x = 8")
    case True then show ?thesis by simp
  next
    case False
    then show ?thesis using that ramp_div_bounds [of "x - 8"] by simp
  qed
  have mono: "(24 * (v - 8)) div 247 \<le> (24 * (w - 8)) div 247"
    using assms(2) by (intro zdiv_mono1) simp_all
  show ?thesis
    using assms rng [of v] rng [of w] mono by (auto simp: eq)
qed

theorem gray_index_witness:
  "(0::int) \<le> 100 \<and> (100::int) \<le> 200 \<and> (200::int) \<le> 255 \<and> (200::int) \<le> 248
   \<and> rgbTo8BitColor 100 100 100 = 240
   \<and> rgbTo8BitColor 100 100 100 \<le> rgbTo8BitColor 200 200 200"
  using gray_index [of 100 200] by simp

text \<open>The index is not monotone over the whole range: grey 248 is the last step of the
  ramp (255), grey 249 is already the white of the colour cube (231).\<close>

theorem gray_not_monotone: "rgbTo8BitColor 249 249 249 < rgbTo8BitColor 248 248 248"
  by code_simp

section \<open>The speed clamp\<close>

lemma f64_fifth: "f64 (1 / 5) = of_int 3602879701896397 * 2 powi (- 54)"
  by code_simp

lemma speed_lo_ge: "1 / 5 \<le> f64 (1 / 5)"
  by (simp add: f64_fifth power_int_minus)

lemma speed_up:
  assumes "f64 (1 / 5) \<le> s"
  shows "f64 (1 / 5) \<le> min (f64 (s * (3 / 2))) 5" and "min (f64 (s * (3 / 2))) 5 \<le> 5"
proof -
  have pos: "0 < f64 (1 / 5)" using speed_lo_ge by simp
  have "f64 (1 / 5) \<le> s * (3 / 2)" using assms pos by simp
  then have "of_int 3602879701896397 * 2 powi (- 54) \<le> rnd 53 (s * (3 / 2))"
    unfolding f64_fifth by (intro rnd_ge) simp_all
  then have "f64 (1 / 5) \<le> f64 (s * (3 / 2))" unfolding f64_fifth unfolding f64_def .
  moreover have "f64 (1 / 5) \<le> 5" by (simp add: f64_fifth power_int_minus)
  ultimately show "f64 (1 / 5) \<le> min (f64 (s * (3 / 2))) 5" by simp
  show "min (f64 (s * (3 / 2))) 5 \<le> 5" by simp
qed

lemma speed_down:
  assumes "0 \<le> s" "s \<le> 5"
  shows "f64 (1 / 5) \<le> max (f64 (s / (3 / 2))) (f64 (1 / 5))"
    and "max (f64 (s / (3 / 2))) (f64 (1 / 5)) \<le> 5"
proof -
  show "f64 (1 / 5) \<le> max (f64 (s / (3 / 2))) (f64 (1 / 5))" by simp
  have "s / (3 / 2) \<le> of_int 5 * 2 powi 0" using assms by simp
  moreover have "0 \<le> s / (3 / 2)" using assms by simp
  ultimately have "rnd 53 (s / (3 / 2)) \<le> of_int 5 * 2 powi 0"
    by (intro rnd_le) simp_all
  then have "f64 (s / (3 / 2)) \<le> 5" by (simp add: f64_def)
  moreover have "f64 (1 / 5) \<le> 5" by (simp add: f64_fifth power_int_minus)
  ultimately show "max (f64 (s / (3 / 2))) (f64 (1 / 5)) \<le> 5" by simp
qed

lemma video_key_speed:
  assumes "key \<in> {CHR ''+'', CHR ''='', CHR ''-'', CHR ''_''}"
    and "f64 (1 / 5) \<le> speed_multiplier pb" "speed_multiplier pb \<le> 5"
  shows "\<exists>pb1. video_key term key pb = Some pb1
           \<and> f64 (1 / 5) \<le> speed_multiplier pb1 \<and> speed_multiplier pb1 \<le> 5"
proof -
  have nn: "0 \<le> speed_multiplier pb" using assms(2) speed_lo_ge by linarith
  show ?thesis
    using assms(1) speed_up [OF assms(2)] speed_down [OF nn assms(3)]
    by (auto simp: video_key_def)
qed

text \<open>Claim C8. The literal \<^verbatim>\<open>0.2\<close> of the source is the double \<open>f64 (1 / 5)\<close>, which is
  not below one fifth. From any speed between that double and 5, every sequence of the
  keys \<^verbatim>\<open>+\<close>, \<^verbatim>\<open>=\<close>, \<^verbatim>\<open>-\<close> and \<^verbatim>\<open>_\<close> is processed to the end and leaves the speed
  between 0.2 and 5.\<close>

theorem speed_clamp:
  assumes "set keys \<subseteq> {CHR ''+'', CHR ''='', CHR ''-'', CHR ''_''}"
    and "f64 (1 / 5) \<le> speed_multiplier pb" and "speed_multiplier pb \<le> 5"
  shows "\<exists>pb'. process_keys term keys pb = Some pb'
           \<and> 1 / 5 \<le> speed_multiplier pb' \<and> f64 (1 / 5) \<le> speed_multiplier pb'
           \<and> speed_multiplier pb' \<le> 5"
  using assms
proof (induction keys arbitrary: pb)
  case Nil
  then show ?case using speed_lo_ge by auto
next
  case (Cons key keys)
  from Cons.prems have "key \<in> {CHR ''+'', CHR ''='', CHR ''-'', CHR ''_''}" by simp
  from video_key_speed [OF this Cons.prems(2,3), of "term"]
  obtain pb1 where k: "video_key term key pb = Some pb1"
    and b: "f64 (1 / 5) \<le> speed_multiplier pb1" "speed_multiplier pb1 \<le> 5" by blast
  from Cons.prems have "set keys \<subseteq> {CHR ''+'', CHR ''='', CHR ''-'', CHR ''_''}" by simp
  from Cons.IH [OF this b] show ?case using k by simp
qed

theorem speed_clamp_witness:
  "set ''+++++--------'' \<subseteq> {CHR ''+'', CHR ''='', CHR ''-'', CHR ''_''}
   \<and> f64 (1 / 5) \<le> speed_multiplier playback0 \<and> speed_multiplier playback0 \<le> 5
   \<and> (\<exists>pb'. process_keys (80, 24) ''+++++--------'' playback0 = Some pb'
           \<and> 1 / 5 \<le> speed_multiplier pb' \<and> f64 (1 / 5) \<le> speed_multiplier pb'
           \<and> speed_multiplier pb' \<le> 5)"
proof -
  have a: "set ''+++++--------'' \<subseteq> {CHR ''+'', CHR ''='', CHR ''-'', CHR ''_''}" by simp
  have b: "f64 (1 / 5) \<le> speed_multiplier playback0"
    by (simp add: playback0_def f64_fifth power_int_minus)
  have c: "speed_multiplier playback0 \<le> 5" by (simp add: playback0_def)
  show ?thesis using a b c speed_clamp [OF a b c, of "(80, 24)"] by blast
qed

section \<open>The sizing step\<close>

lemma car_val: "char_aspect_ratio = 9227469 / 4194304"
  unfolding char_aspect_ratio_def by code_simp

lemma f32_int_bounds:
  assumes "1 \<le> n" "n \<le> 10000"
  shows "1 \<le> f32 (of_int n)" and "f32 (of_int n) \<le> 10000"
proof -
  have "of_int 1 * 2 powi 0 \<le> rnd 24 (of_int n)" using assms by (intro rnd_ge) simp_all
  then show "1 \<le> f32 (of_int n)" by (simp add: f32_def)
  have "rnd 24 (of_int n) \<le> of_int 10000 * 2 powi 0" using assms by (intro rnd_le) simp_all
  then show "f32 (of_int n) \<le> 10000" by (simp add: f32_def)
qed

lemma frame_aspect_pos:
  assumes "0 < cols" "0 < rows"
  shows "0 < f32 (f32 (of_int cols) / f32 (of_int rows))"
proof -
  have "0 < f32 (of_int cols)" "0 < f32 (of_int rows)"
    unfolding f32_def using assms by (simp_all add: rnd_gt0)
  then show ?thesis unfolding f32_def by (intro rnd_gt0) simp_all
qed

lemma threshold_bounds:
  assumes tw: "1 \<le> tw" "tw \<le> 10000" and th: "1 \<le> th" "th \<le> 10000"
  defines "q \<equiv> f32 (f32 (f32 (of_int tw) * char_aspect_ratio) / f32 (of_int th))"
  shows "1 / 8192 \<le> q" and "q \<le> 22500"
proof -
  note a = f32_int_bounds [OF tw]
  note b = f32_int_bounds [OF th]
  define c where "c = char_aspect_ratio"
  have c: "2 \<le> c" "c \<le> 9 / 4" by (simp_all add: c_def car_val)
  define x where "x = f32 (of_int tw) * c"
  have x: "2 \<le> x" "x \<le> 22500"
  proof -
    have "1 * 2 \<le> f32 (of_int tw) * c" using a(1) c(1) by (intro mult_mono) simp_all
    then show "2 \<le> x" by (simp add: x_def)
    have "f32 (of_int tw) * c \<le> 10000 * (9 / 4)" using a c by (intro mult_mono) simp_all
    then show "x \<le> 22500" by (simp add: x_def)
  qed
  have "of_int 2 * 2 powi 0 \<le> rnd 24 x" using x(1) by (intro rnd_ge) simp_all
  then have y1: "2 \<le> f32 x" by (simp add: f32_def)
  have "rnd 24 x \<le> of_int 22500 * 2 powi 0" using x by (intro rnd_le) simp_all
  then have y2: "f32 x \<le> 22500" by (simp add: f32_def)
  define z where "z = f32 x / f32 (of_int th)"
  have "2 / 10000 \<le> f32 x / f32 (of_int th)" using y1 b by (intro frac_le) simp_all
  then have z1: "1 / 8192 \<le> z" by (simp add: z_def)
  have "f32 x / f32 (of_int th) \<le> 22500 / 1" using y1 y2 b by (intro frac_le) simp_all
  then have z2: "z \<le> 22500" by (simp add: z_def)
  have "of_int 1 * 2 powi (- 13) \<le> rnd 24 z"
    using z1 by (intro rnd_ge) (simp_all add: power_int_minus)
  then have q1: "1 / 8192 \<le> f32 z" by (simp add: f32_def power_int_minus)
  have "rnd 24 z \<le> of_int 22500 * 2 powi 0" using z1 z2 by (intro rnd_le) simp_all
  then have q2: "f32 z \<le> 22500" by (simp add: f32_def)
  show "1 / 8192 \<le> q" "q \<le> 22500" using q1 q2 by (simp_all add: q_def z_def x_def c_def)
qed

lemma wide_height:
  assumes tw: "1 \<le> tw" "tw \<le> 10000" and fa: "1 / 8192 < fa"
  defines "h \<equiv> f32 (f32 (f32 (of_int tw) / fa) / char_aspect_ratio)"
  shows "0 \<le> h" and "h \<le> of_int 40960000"
proof -
  note a = f32_int_bounds [OF tw]
  define y where "y = f32 (of_int tw) / fa"
  have y0: "0 \<le> y" using a fa by (simp add: y_def)
  have "f32 (of_int tw) / fa \<le> 10000 / (1 / 8192)" using a fa by (intro frac_le) simp_all
  then have y1: "y \<le> of_int 10000 * 2 powi 13" by (simp add: y_def)
  have r0: "0 \<le> f32 y" unfolding f32_def using y0 by (rule rnd_nonneg)
  have "rnd 24 y \<le> of_int 10000 * 2 powi 13" using y0 y1 by (intro rnd_le) simp_all
  then have r1: "f32 y \<le> 81920000" by (simp add: f32_def)
  define z where "z = f32 y / char_aspect_ratio"
  have z0: "0 \<le> z" using r0 by (simp add: z_def car_val)
  have "f32 y / char_aspect_ratio \<le> 81920000 / 2" using r0 r1 by (intro frac_le) (simp_all add: car_val)
  then have z1: "z \<le> of_int 10000 * 2 powi 12" by (simp add: z_def)
  show "0 \<le> h" using z0 by (simp add: h_def z_def y_def f32_def rnd_nonneg)
  have "rnd 24 z \<le> of_int 10000 * 2 powi 12" using z0 z1 by (intro rnd_le) simp_all
  then show "h \<le> of_int 40960000" by (simp add: h_def z_def y_def f32_def)
qed

lemma tall_width:
  assumes th: "1 \<le> th" "th \<le> 10000" and fa: "0 \<le> fa" "fa \<le> 22500"
  defines "w \<equiv> f32 (f32 (f32 (of_int th) * fa) * char_aspect_ratio)"
  shows "0 \<le> w" and "w \<le> of_int 603979776"
proof -
  note b = f32_int_bounds [OF th]
  define y where "y = f32 (of_int th) * fa"
  have y0: "0 \<le> y" using b fa by (simp add: y_def)
  have "f32 (of_int th) * fa \<le> 10000 * 22500" using b fa by (intro mult_mono) simp_all
  then have y1: "y \<le> of_int 1 * 2 powi 28" by (simp add: y_def)
  have r0: "0 \<le> f32 y" unfolding f32_def using y0 by (rule rnd_nonneg)
  have "rnd 24 y \<le> of_int 1 * 2 powi 28" using y0 y1 by (intro rnd_le) simp_all
  then have r1: "f32 y \<le> 268435456" by (simp add: f32_def)
  define z where "z = f32 y * char_aspect_ratio"
  have z0: "0 \<le> z" using r0 by (simp add: z_def car_val)
  have "f32 y * char_aspect_ratio \<le> 268435456 * (9 / 4)"
    using r0 r1 by (intro mult_mono) (simp_all add: car_val)
  then have z1: "z \<le> of_int 9 * 2 powi 26" by (simp add: z_def)
  show "0 \<le> w" using z0 by (simp add: w_def z_def y_def f32_def rnd_nonneg)
  have "rnd 24 z \<le> of_int 9 * 2 powi 26" using z0 z1 by (intro rnd_le) simp_all
  then show "w \<le> of_int 603979776" by (simp add: w_def z_def y_def f32_def)
qed

text \<open>On boxes of 1 to 10000 columns and rows the sizing step always yields a size for a
  non-empty raster; the dimension copied from the box is at least 1 and the computed one
  is at least 0.\<close>

lemma new_size_bounds:
  assumes "0 < cols" and "0 < rows"
    and "1 \<le> tw" and "tw \<le> 10000" and "1 \<le> th" and "th \<le> 10000"
  shows "\<exists>w h. new_size cols rows tw th = Some (w, h) \<and> 0 \<le> w \<and> 0 \<le> h
           \<and> (w = tw \<and> 1 \<le> w \<or> h = th \<and> 1 \<le> h)"
proof -
  define fa where "fa = f32 (f32 (of_int cols) / f32 (of_int rows))"
  define q where "q = f32 (f32 (f32 (of_int tw) * char_aspect_ratio) / f32 (of_int th))"
  have fa0: "0 < fa" unfolding fa_def using assms(1,2) by (rule frame_aspect_pos)
  note qb = threshold_bounds [OF assms(3-6), folded q_def]
  have th0: "th \<noteq> 0" using assms(5) by simp
  show ?thesis
  proof (cases "q < fa")
    case True
    then have "1 / 8192 < fa" using qb(1) by simp
    note hb = wide_height [OF assms(3,4) this]
    have "new_size cols rows tw th =
        map_option (Pair tw) (cast_int (f32 (f32 (f32 (of_int tw) / fa) / char_aspect_ratio)))"
      using True th0 by (simp add: new_size_def Let_def fa_def q_def)
    then show ?thesis using cast_int_Some [OF hb] assms(3) by simp
  next
    case False
    then have "fa \<le> 22500" using qb(2) by simp
    note wb = tall_width [OF assms(5,6) less_imp_le [OF fa0] this]
    have "new_size cols rows tw th =
        map_option (\<lambda>w. (w, th)) (cast_int (f32 (f32 (f32 (of_int th) * fa) * char_aspect_ratio)))"
      using False th0 by (simp add: new_size_def Let_def fa_def q_def)
    then show ?thesis using cast_int_Some [OF wb] assms(5) by simp
  qed
qed

lemma new_size_zero_height: "new_size 1000 1 10 10 = Some (10, 0)"
  by code_simp

text \<open>Claim C5 at a raster of 1000 by 1 pixels in a box of 10 by 10. The sizing step has no
  clamp and no minimum: the computed height is 0, \<^verbatim>\<open>cv::resize\<close> is called with the
  empty size 10 by 0 and raises, and both entry points end in that error instead of
  returning a text.\<close>

theorem zero_height_resize_error:
  "new_size 1000 1 10 10 = Some (10, 0)
   \<and> frameToAscii cv0 (80, 24) (fresh COLOR_8BIT) [replicate 1000 red] 10 10 = Inl ResizeError
   \<and> frameToColorBlocks cv0 (80, 24) (fresh COLOR_8BIT) [replicate 1000 red] 10 10
       = Inl ResizeError"
  by (simp add: new_size_zero_height frameToAscii_def frameToColorBlocks_def mat_empty_def
      mat_rows_def mat_cols_def target_box_def cv0_def fresh_def new_player_def)

text \<open>Claim C6 at a 16 by 9 raster in a box of 80 columns and 24 rows: the second branch
  is taken and the width is 93, which is more than the 80 columns of the box.\<close>

theorem new_size_exceeds_box: "new_size 16 9 80 24 = Some (93, 24)"
  by code_simp

section \<open>The colour loop\<close>

text \<open>The invariant \<open>codes_ok\<close> holds for a new player and is kept by every operation
  on the player.\<close>

lemma list_all_update:
  "P (k, v) \<Longrightarrow> list_all P al \<Longrightarrow> list_all P (AList.update k v al)"
  by (induction al) auto

lemma codes_ok_new: "codes_ok new_player"
  by (simp add: codes_ok_def new_player_def)

lemma codes_ok_clear: "codes_ok (clearColorCaches p)"
  by (simp add: codes_ok_def clearColorCaches_def)

lemma codes_ok_mode: "codes_ok p \<Longrightarrow> codes_ok (setColorMode m p)"
  by (simp add: codes_ok_def setColorMode_def set_cache_size_def Let_def)

lemma codes_ok_rgb:
  "color_cache_8bit (snd (rgbTo8BitColorCached p r g b)) = color_cache_8bit p
   \<and> color_cache_24bit (snd (rgbTo8BitColorCached p r g b)) = color_cache_24bit p"
  by (simp add: rgbTo8BitColorCached_def Let_def count_miss_def count_hit_def
      set_cache_size_def split: option.splits)

lemma codes_ok_lookup:
  assumes "codes_ok p"
  shows "codes_ok (snd (getColorCodeCached p r g b bg))"
proof (cases "current_color_mode p")
  case MONO
  then show ?thesis using assms by (simp add: getColorCodeCached_def)
next
  case COLOR_8BIT
  have "take 1 (code_8bit bg c) = ESC" for c by (simp add: code_8bit_def ESC_def)
  then show ?thesis using assms COLOR_8BIT codes_ok_rgb [of "count_miss p" r g b]
    by (auto simp: getColorCodeCached_def codes_ok_def Let_def count_hit_def count_miss_def
        set_cache_size_def split_beta intro!: list_all_update split: option.splits)
next
  case COLOR_24BIT
  have "take 1 (code_24bit bg r g b) = ESC" by (simp add: code_24bit_def ESC_def)
  then show ?thesis using assms COLOR_24BIT
    by (auto simp: getColorCodeCached_def codes_ok_def Let_def count_hit_def count_miss_def
        set_cache_size_def intro!: list_all_update split: option.splits)
qed

lemma getColorCodeCached_mode:
  "current_color_mode (snd (getColorCodeCached p r g b bg)) = current_color_mode p"
  by (simp add: getColorCodeCached_def rgbTo8BitColorCached_def count_hit_def count_miss_def
      set_cache_size_def Let_def split: ColorMode.splits option.splits prod.splits)

lemma cached_code_esc:
  assumes "map_of xs k = Some c" and "list_all (\<lambda>kc. take 1 (snd kc) = ESC) xs"
  shows "take 1 c = ESC"
proof -
  have "(k, c) \<in> set xs" using assms(1) by (rule map_of_SomeD)
  then show ?thesis using assms(2) by (auto simp: list_all_iff)
qed

lemma getColorCodeCached_esc:
  assumes "current_color_mode p \<noteq> MONO" and "codes_ok p"
  shows "take 1 (fst (getColorCodeCached p r g b bg)) = ESC"
proof (cases "current_color_mode p")
  case MONO
  with assms(1) show ?thesis by simp
next
  case COLOR_8BIT
  show ?thesis
  proof (cases "map_of (color_cache_8bit p)
                  (ColorKey (word_of_int r) (word_of_int g) (word_of_int b) bg)")
    case None
    then show ?thesis using COLOR_8BIT
      by (simp add: getColorCodeCached_def Let_def code_8bit_def ESC_def split: prod.splits)
  next
    case (Some c)
    have ok: "list_all (\<lambda>kc. take 1 (snd kc) = ESC) (color_cache_8bit p)"
      using assms(2) unfolding codes_ok_def by blast
    have "take 1 c = ESC" by (rule cached_code_esc [OF Some ok])
    then show ?thesis using COLOR_8BIT Some by (simp add: getColorCodeCached_def Let_def)
  qed
next
  case COLOR_24BIT
  show ?thesis
  proof (cases "map_of (color_cache_24bit p)
                  (ColorKey (word_of_int r) (word_of_int g) (word_of_int b) bg)")
    case None
    then show ?thesis using COLOR_24BIT
      by (simp add: getColorCodeCached_def Let_def code_24bit_def ESC_def)
  next
    case (Some c)
    have ok: "list_all (\<lambda>kc. take 1 (snd kc) = ESC) (color_cache_24bit p)"
      using assms(2) unfolding codes_ok_def by blast
    have "take 1 c = ESC" by (rule cached_code_esc [OF Some ok])
    then show ?thesis using COLOR_24BIT Some by (simp add: getColorCodeCached_def Let_def)
  qed
qed

lemma code_of_nonempty:
  assumes "current_color_mode p \<noteq> MONO" and "codes_ok p"
  shows "code_of p bg pixel \<noteq> []"
proof -
  have "take 1 (code_of p bg pixel) = ESC"
    unfolding code_of_def using assms by (rule getColorCodeCached_esc)
  then show ?thesis by (auto simp: ESC_def)
qed

lemma colorPixel_same:
  assumes "pixel = lastPixel s"
  shows "colorPixel bg cell s pixel = s\<lparr>ascii_frame := ascii_frame s @ [cell pixel]\<rparr>"
  using assms by (simp add: colorPixel_def)

lemma colorPixel_new:
  assumes "pixel \<noteq> lastPixel s" and "code_of (plr s) bg pixel \<noteq> lastColorCode s"
  shows "colorPixel bg cell s pixel =
           s\<lparr>plr := snd (getColorCodeCached (plr s) (uint (ch2 pixel)) (uint (ch1 pixel))
                          (uint (ch0 pixel)) bg),
             ascii_frame := ascii_frame s @ code_of (plr s) bg pixel @ [cell pixel],
             lastColorCode := code_of (plr s) bg pixel, lastPixel := pixel\<rparr>"
  using assms by (auto simp: colorPixel_def code_of_def Let_def split: prod.splits)

lemma run_same:
  assumes "x = lastPixel s"
  shows "foldl (colorPixel bg cell) s (replicate n x)
           = s\<lparr>ascii_frame := ascii_frame s @ replicate n (cell x)\<rparr>"
  using assms
proof (induction n arbitrary: s)
  case 0
  then show ?case by simp
next
  case (Suc n)
  have "foldl (colorPixel bg cell) s (replicate (Suc n) x)
          = foldl (colorPixel bg cell) (s\<lparr>ascii_frame := ascii_frame s @ [cell x]\<rparr>) (replicate n x)"
    using Suc.prems by (simp add: colorPixel_same)
  also have "\<dots> = s\<lparr>ascii_frame := ascii_frame s @ [cell x]\<rparr>
                      \<lparr>ascii_frame := (ascii_frame s @ [cell x]) @ replicate n (cell x)\<rparr>"
    using Suc.prems by (subst Suc.IH) simp_all
  finally show ?case by (simp add: replicate_app_Cons_same)
qed







lemma resetColor_mode:
  "current_color_mode p' = current_color_mode p \<Longrightarrow> resetColor p' = resetColor p"
  by (simp add: resetColor_def)

lemma line_same:
  assumes "x = lastPixel s"
  shows "colorLine bg cell s (replicate n x)
           = s\<lparr>ascii_frame := ascii_frame s @ replicate n (cell x) @ resetColor (plr s) @ NL,
               lastColorCode := []\<rparr>"
  unfolding colorLine_def Let_def run_same [OF assms] by simp

lemma lines_same:
  assumes "x = lastPixel s" and "lastColorCode s = []"
  shows "foldl (colorLine bg cell) s (replicate h (replicate n x))
           = s\<lparr>ascii_frame := ascii_frame s
                  @ concat (replicate h (replicate n (cell x) @ resetColor (plr s) @ NL))\<rparr>"
  using assms
proof (induction h arbitrary: s)
  case 0
  then show ?case by simp
next
  case (Suc h)
  define s1 where "s1 = colorLine bg cell s (replicate n x)"
  have s1: "s1 = s\<lparr>ascii_frame := ascii_frame s @ replicate n (cell x) @ resetColor (plr s) @ NL\<rparr>"
    unfolding s1_def line_same [OF Suc.prems(1)] using Suc.prems(2) by simp
  have "foldl (colorLine bg cell) s (replicate (Suc h) (replicate n x))
          = foldl (colorLine bg cell) s1 (replicate h (replicate n x))"
    by (simp add: s1_def)
  also have "\<dots> = s1\<lparr>ascii_frame := ascii_frame s1
                  @ concat (replicate h (replicate n (cell x) @ resetColor (plr s1) @ NL))\<rparr>"
    using Suc.prems by (intro Suc.IH) (simp_all add: s1)
  finally show ?case by (simp add: s1)
qed

text \<open>A raster of one colour other than the sentinel: the escape code is emitted once,
  before the first pixel of the first row, and in no later row.\<close>

lemma uniform_frame:
  assumes "current_color_mode p \<noteq> MONO" and "codes_ok p" and "x \<noteq> white"
  shows "fst (colorLoop bg cell p (replicate (Suc h) (replicate (Suc w) x)))
           = code_of p bg x @ replicate (Suc w) (cell x) @ resetColor p @ NL
             @ concat (replicate h (replicate (Suc w) (cell x) @ resetColor p @ NL))"
proof -
  define p' where "p' = snd (getColorCodeCached p (uint (ch2 x)) (uint (ch1 x)) (uint (ch0 x)) bg)"
  have rp: "resetColor p' = resetColor p"
    unfolding p'_def by (intro resetColor_mode getColorCodeCached_mode)
  define s1 where "s1 = colorPixel bg cell (scan_start p) x"
  have "code_of (plr (scan_start p)) bg x \<noteq> lastColorCode (scan_start p)"
    using code_of_nonempty [OF assms(1,2)] by (simp add: scan_start_def)
  moreover have "x \<noteq> lastPixel (scan_start p)" using assms(3) by (simp add: scan_start_def white_def)
  ultimately have s1: "s1 = \<lparr>ascii_frame = code_of p bg x @ [cell x], plr = p',
                              lastColorCode = code_of p bg x, lastPixel = x\<rparr>"
    unfolding s1_def by (subst colorPixel_new) (simp_all add: scan_start_def p'_def)
  have "foldl (colorPixel bg cell) (scan_start p) (replicate (Suc w) x)
          = foldl (colorPixel bg cell) s1 (replicate w x)"
    by (simp add: s1_def)
  also have "\<dots> = s1\<lparr>ascii_frame := ascii_frame s1 @ replicate w (cell x)\<rparr>"
    by (intro run_same) (simp add: s1)
  finally have row: "foldl (colorPixel bg cell) (scan_start p) (replicate (Suc w) x)
          = \<lparr>ascii_frame = code_of p bg x @ replicate (Suc w) (cell x), plr = p',
             lastColorCode = code_of p bg x, lastPixel = x\<rparr>"
    by (simp add: s1)
  define s2 where "s2 = colorLine bg cell (scan_start p) (replicate (Suc w) x)"
  have s2: "s2 = \<lparr>ascii_frame = code_of p bg x @ replicate (Suc w) (cell x) @ resetColor p @ NL,
                   plr = p', lastColorCode = [], lastPixel = x\<rparr>"
    unfolding s2_def colorLine_def Let_def row by (simp add: rp)
  have "foldl (colorLine bg cell) (scan_start p) (replicate (Suc h) (replicate (Suc w) x))
          = foldl (colorLine bg cell) s2 (replicate h (replicate (Suc w) x))"
    by (simp add: s2_def)
  also have "\<dots> = s2\<lparr>ascii_frame := ascii_frame s2
                  @ concat (replicate h (replicate (Suc w) (cell x) @ resetColor (plr s2) @ NL))\<rparr>"
    by (intro lines_same) (simp_all add: s2)
  finally show ?thesis by (simp add: colorLoop_def Let_def s2 rp)
qed

lemma tbl_nth: "i < 256 \<Longrightarrow> brightness_to_char_idx ! i = i * 69 div 255"
  by (simp add: brightness_to_char_idx_def ASCII_CHARS_def)

lemma brightness_red: "brightness red = 76"
  unfolding red_def by code_simp


lemma glyph_red: "glyph red = CHR '']''"
  by (simp add: glyph_def brightness_red tbl_nth ASCII_CHARS_def)


lemma fresh_ok: "m \<noteq> MONO \<Longrightarrow> current_color_mode (fresh m) \<noteq> MONO \<and> codes_ok (fresh m)"
  by (simp add: fresh_def new_player_def codes_ok_def)

lemma red_not_white: "red \<noteq> white"
  by (simp add: red_def white_def)

lemma code_red_fg8: "code_of (fresh COLOR_8BIT) False red = ESC @ ''[38;5;196m''"
  unfolding code_of_def red_def by code_simp

lemma code_red_bg8: "code_of (fresh COLOR_8BIT) True red = ESC @ ''[48;5;196m''"
  unfolding code_of_def red_def by code_simp

text \<open>Claim C1 at the raster of the specification's own scenario, 4 by 2 pixels of pure
  red in 256-colour mode, in both styles: the first row carries the escape code, the
  second row carries none and follows the reset of the first.\<close>

theorem uniform_rows_lose_colour:
  "fst (colorLoop False glyph (fresh COLOR_8BIT) [[red, red, red, red], [red, red, red, red]])
     = ESC @ ''[38;5;196m]]]]'' @ ESC @ ''[0m'' @ NL @ '']]]]'' @ ESC @ ''[0m'' @ NL
   \<and> fst (colorLoop True blank (fresh COLOR_8BIT) [[red, red, red, red], [red, red, red, red]])
     = ESC @ ''[48;5;196m    '' @ ESC @ ''[0m'' @ NL @ ''    '' @ ESC @ ''[0m'' @ NL"
proof -
  have m: "current_color_mode (fresh COLOR_8BIT) \<noteq> MONO" and ok: "codes_ok (fresh COLOR_8BIT)"
    using fresh_ok [of COLOR_8BIT] by simp_all
  have r: "[[red, red, red, red], [red, red, red, red]] = replicate (Suc 1) (replicate (Suc 3) red)"
    by (simp add: numeral_3_eq_3)
  have rc: "resetColor (fresh COLOR_8BIT) = ESC @ ''[0m''"
    by (simp add: resetColor_def fresh_def new_player_def)
  show ?thesis
    unfolding r uniform_frame [OF m ok red_not_white]
    by (simp add: code_red_fg8 code_red_bg8 glyph_red blank_def rc numeral_3_eq_3)
qed



text \<open>The luma of a pixel lies between 0 and 255, so the reads of the brightness table
  and of the glyph ramp in \<open>glyph\<close> are inside their bounds.\<close>

lemma u8_rat:
  shows "0 \<le> (of_int (uint (c :: u8)) :: rat)" and "(of_int (uint c) :: rat) \<le> 255"
proof -
  have a: "0 \<le> uint c" by simp
  have b: "uint c \<le> 255" using uint_lt2p [of c] by simp
  show "0 \<le> (of_int (uint c) :: rat)" using a by (simp only: of_int_0_le_iff)
  have "(of_int (uint c) :: rat) \<le> of_int 255" using b by (simp only: of_int_le_iff)
  then show "(of_int (uint c) :: rat) \<le> 255" by (simp only: of_int_numeral)
qed

lemma weighted_channel:
  assumes "0 < m" "m < 2 ^ 41" "w \<le> of_int m * 2 powi (- 12)" "0 \<le> w" "0 \<le> x" "x \<le> 255"
  shows "0 \<le> f64 (f64 w * x)"
    and "f64 (f64 w * x) \<le> of_int (m * 255) * 2 powi (- 12)"
proof -
  have w0: "0 \<le> f64 w" unfolding f64_def using assms(4) by (rule rnd_nonneg)
  have "m < 2 ^ 53" using assms(2) by simp
  then have "rnd 53 w \<le> of_int m * 2 powi (- 12)" using assms(3,4) by (intro rnd_le) simp_all
  then have w1: "f64 w \<le> of_int m * 2 powi (- 12)" by (simp only: f64_def)
  have y0: "0 \<le> f64 w * x" using w0 assms(5) by simp
  have "f64 w * x \<le> (of_int m * 2 powi (- 12)) * 255"
    using w0 w1 assms(5,6) by (intro mult_mono) simp_all
  then have y1: "f64 w * x \<le> of_int (m * 255) * 2 powi (- 12)" by simp
  show "0 \<le> f64 (f64 w * x)" using rnd_nonneg [OF y0, of 53] by (simp only: f64_def)
  have "m * 255 < 2 ^ 53" using assms(2) by simp
  then have "rnd 53 (f64 w * x) \<le> of_int (m * 255) * 2 powi (- 12)"
    using y0 y1 by (intro rnd_le) simp_all
  then show "f64 (f64 w * x) \<le> of_int (m * 255) * 2 powi (- 12)"
    by (simp only: f64_def)
qed

lemma brightness_range: "0 \<le> brightness pixel \<and> brightness pixel \<le> 255"
proof -
  define tr where "tr = f64 (f64 (299 / 1000) * of_int (uint (ch2 pixel)))"
  define tg where "tg = f64 (f64 (587 / 1000) * of_int (uint (ch1 pixel)))"
  define tb where "tb = f64 (f64 (114 / 1000) * of_int (uint (ch0 pixel)))"
  have r: "0 \<le> tr" "tr \<le> of_int (1225 * 255) * 2 powi (- 12)"
    unfolding tr_def
    by (rule weighted_channel [of 1225, OF _ _ _ _ u8_rat]; simp add: power_int_minus)+
  have g: "0 \<le> tg" "tg \<le> of_int (2405 * 255) * 2 powi (- 12)"
    unfolding tg_def
    by (rule weighted_channel [of 2405, OF _ _ _ _ u8_rat]; simp add: power_int_minus)+
  have b: "0 \<le> tb" "tb \<le> of_int (467 * 255) * 2 powi (- 12)"
    unfolding tb_def
    by (rule weighted_channel [of 467, OF _ _ _ _ u8_rat]; simp add: power_int_minus)+
  have s0: "0 \<le> tr + tg" using r g by simp
  have "tr + tg \<le> of_int (1225 * 255) * 2 powi (- 12) + of_int (2405 * 255) * 2 powi (- 12)"
    using r g by (intro add_mono)
  then have s1: "tr + tg \<le> of_int 925650 * 2 powi (- 12)" by (simp add: power_int_minus)
  have u0: "0 \<le> f64 (tr + tg)" unfolding f64_def using s0 by (rule rnd_nonneg)
  have "rnd 53 (tr + tg) \<le> of_int 925650 * 2 powi (- 12)" using s0 s1 by (intro rnd_le) simp_all
  then have u1: "f64 (tr + tg) \<le> of_int 925650 * 2 powi (- 12)" by (simp only: f64_def)
  have v0: "0 \<le> f64 (tr + tg) + tb" using u0 b by simp
  have "f64 (tr + tg) + tb \<le> of_int 925650 * 2 powi (- 12) + of_int (467 * 255) * 2 powi (- 12)"
    using u1 b by (intro add_mono)
  then have v1: "f64 (tr + tg) + tb \<le> of_int 1044735 * 2 powi (- 12)" by (simp add: power_int_minus)
  have z0: "0 \<le> f64 (f64 (tr + tg) + tb)" using rnd_nonneg [OF v0, of 53] by (simp only: f64_def)
  have "rnd 53 (f64 (tr + tg) + tb) \<le> of_int 1044735 * 2 powi (- 12)"
    using v0 v1 by (intro rnd_le) simp_all
  then have "f64 (f64 (tr + tg) + tb) \<le> of_int 1044735 * 2 powi (- 12)" by (simp only: f64_def)
  then have z1: "f64 (f64 (tr + tg) + tb) < 256" by (simp add: power_int_minus)
  have "brightness pixel = \<lfloor>f64 (f64 (tr + tg) + tb)\<rfloor>"
    using z0 by (simp add: brightness_def trunc_def tr_def tg_def tb_def)
  moreover have "0 \<le> \<lfloor>f64 (f64 (tr + tg) + tb)\<rfloor>" using z0 by simp
  moreover have "\<lfloor>f64 (f64 (tr + tg) + tb)\<rfloor> < 256" using z1 by (simp add: floor_less_iff)
  ultimately show ?thesis by simp
qed

lemma glyph_in_range:
  "nat (brightness pixel) < length brightness_to_char_idx
   \<and> brightness_to_char_idx ! nat (brightness pixel) < length ASCII_CHARS"
proof -
  have i: "nat (brightness pixel) < 256" using brightness_range [of pixel] by linarith
  then have "nat (brightness pixel) * 69 div 255 < 70" by simp
  then show ?thesis using i by (simp add: tbl_nth) (simp add: brightness_to_char_idx_def ASCII_CHARS_def)
qed

section \<open>The playback controller\<close>

text \<open>Claim C3 at a player whose true-colour cache holds one code, with one hit and one
  miss counted. In \<^verbatim>\<open>playVideoAscii\<close> the key \<^verbatim>\<open>f\<close> switches fullscreen on, takes the
  box from the terminal and also empties the cache and zeroes the counters; in
  \<^verbatim>\<open>playFromCamera\<close> the same key leaves the player object as it was.\<close>

theorem fullscreen_clears_caches:
  "cache_stats (this playback_warm) = \<lparr>hits = 1, misses = 1, cache_size = 1\<rparr>
   \<and> map_option (\<lambda>pb. (fullscreen_mode pb, width pb, height pb, cache_stats (this pb),
                   color_cache_24bit (this pb)))
        (video_key (80, 24) CHR ''f'' playback_warm)
      = Some (True, 78, 20, \<lparr>hits = 0, misses = 0, cache_size = 0\<rparr>, [])
   \<and> map_option this (camera_key (80, 24) CHR ''f'' playback_warm) = Some (this playback_warm)"
  by code_simp

lemma draw_fields:
  assumes "draw ext term pb = Inr (pb2, out)"
  shows "pb2 = pb\<lparr>this := this pb2\<rparr>"
  using assms by (auto simp: draw_def split: if_splits sum.splits prod.splits)

text \<open>No key changes the retained frame or the frame number.\<close>

lemma video_key_frame_case:
  "(case video_key term key pb of None \<Rightarrow> True
    | Some pb1 \<Rightarrow> frame pb1 = frame pb \<and> frame_number pb1 = frame_number pb)"
  by (simp add: video_key_def toggle_fullscreen_def Let_def)

lemma video_key_frame:
  assumes "video_key term key pb = Some pb1"
  shows "frame pb1 = frame pb \<and> frame_number pb1 = frame_number pb"
proof -
  have "case video_key term key pb of None \<Rightarrow> True
        | Some pb1 \<Rightarrow> frame pb1 = frame pb \<and> frame_number pb1 = frame_number pb"
    by (rule video_key_frame_case)
  then show ?thesis using assms by simp
qed

lemma process_keys_frame:
  assumes "process_keys term keys pb = Some pb1"
  shows "frame pb1 = frame pb \<and> frame_number pb1 = frame_number pb"
  using assms
proof (induction keys arbitrary: pb)
  case Nil
  then show ?case by simp
next
  case (Cons key keys)
  then obtain pb' where k: "video_key term key pb = Some pb'"
    and r: "process_keys term keys pb' = Some pb1"
    by (auto split: option.splits)
  from Cons.IH [OF r] video_key_frame [OF k] show ?case by simp
qed

lemma cast_int_lt:
  assumes "0 \<le> x" and "x < 2 ^ 31"
  shows "cast_int x = Some (trunc x)"
proof -
  have t: "trunc x = \<lfloor>x\<rfloor>" using assms(1) by (simp add: trunc_def)
  have "0 \<le> \<lfloor>x\<rfloor>" using assms(1) by simp
  moreover have "\<lfloor>x\<rfloor> < 2 ^ 31" using assms(2) by (simp add: floor_less_iff)
  ultimately show ?thesis by (simp add: cast_int_def t)
qed

lemma pacing_defined:
  assumes "f64 (f64 (delay / speed_multiplier pb) - f64 (of_int elapsed)) < 2 ^ 31"
  shows "pacing delay pb elapsed =
           Some (if f64 (of_int elapsed) < f64 (delay / speed_multiplier pb)
                 then [Sleep (trunc (f64 (f64 (delay / speed_multiplier pb) - f64 (of_int elapsed))))]
                 else [])"
proof (cases "f64 (of_int elapsed) < f64 (delay / speed_multiplier pb)")
  case True
  then have "0 \<le> f64 (delay / speed_multiplier pb) - f64 (of_int elapsed)" by simp
  then have "0 \<le> rnd 53 (f64 (delay / speed_multiplier pb) - f64 (of_int elapsed))"
    by (rule rnd_nonneg)
  then have "0 \<le> f64 (f64 (delay / speed_multiplier pb) - f64 (of_int elapsed))"
    by (simp only: f64_def)
  from cast_int_lt [OF this assms] True show ?thesis by (simp add: pacing_def Let_def)
next
  case False
  then show ?thesis by (simp add: pacing_def Let_def)
qed

text \<open>Claim C4, as the code has it. In a tick whose keys leave the player paused, the keys
  are processed, no frame is taken from the capture, the frame number and the retained
  frame stay as they were before the tick and the retained frame is drawn again; the
  pacing at the end of the tick is the same as when playing: the tick sleeps for the rest
  of \<^verbatim>\<open>base_delay / speed_multiplier\<close> whenever less than that has elapsed. This holds
  when drawing succeeds and the rest of the delay is below \<open>2^31\<close> milliseconds, the
  range in which the conversion of the sleep to \<^verbatim>\<open>int\<close> is defined.\<close>

theorem paused_tick:
  assumes "process_keys term keys pb = Some pb1" and "paused pb1"
    and "draw ext term pb1 = Inr (pb2, out)"
    and "f64 (f64 (delay / speed_multiplier pb1) - f64 (of_int elapsed)) < 2 ^ 31"
  shows "video_tick ext term delay keys elapsed pb cap
           = Inr (Next pb2 cap (out @
               (if f64 (of_int elapsed) < f64 (delay / speed_multiplier pb1)
                then [Sleep (trunc (f64 (f64 (delay / speed_multiplier pb1)
                                         - f64 (of_int elapsed))))]
                else [])))
       \<and> frame_number pb2 = frame_number pb \<and> frame pb2 = frame pb \<and> paused pb2"
proof -
  note pb2 = draw_fields [OF assms(3)]
  have same: "frame_number pb2 = frame_number pb1" "frame pb2 = frame pb1"
    "paused pb2 = paused pb1" "speed_multiplier pb2 = speed_multiplier pb1"
    by (subst pb2, simp)+
  have "pacing delay pb2 elapsed =
           Some (if f64 (of_int elapsed) < f64 (delay / speed_multiplier pb1)
                 then [Sleep (trunc (f64 (f64 (delay / speed_multiplier pb1)
                                          - f64 (of_int elapsed))))]
                 else [])"
    using pacing_defined [of delay pb2 elapsed] assms(4) by (simp only: same)
  then have "video_tick ext term delay keys elapsed pb cap
           = Inr (Next pb2 cap (out @
               (if f64 (of_int elapsed) < f64 (delay / speed_multiplier pb1)
                then [Sleep (trunc (f64 (f64 (delay / speed_multiplier pb1)
                                         - f64 (of_int elapsed))))]
                else [])))"
    using assms(1-3) by (simp add: video_tick_def)
  then show ?thesis using same assms(2) process_keys_frame [OF assms(1)] by simp
qed

lemma new_size_unit: "new_size 1 1 2 1 = Some (2, 1)"
  by code_simp

theorem paused_tick_witness:
  "process_keys (80, 24) '' '' (playback0\<lparr>frame := [[red]], width := 2, height := 1\<rparr>)
     = Some (playback0\<lparr>frame := [[red]], width := 2, height := 1, paused := True\<rparr>)
   \<and> paused (playback0\<lparr>frame := [[red]], width := 2, height := 1, paused := True\<rparr>)
   \<and> draw cv0 (80, 24) (playback0\<lparr>frame := [[red]], width := 2, height := 1, paused := True\<rparr>)
       = Inr (playback0\<lparr>frame := [[red]], width := 2, height := 1, paused := True\<rparr>,
              [Print clear_home, Print (''  '' @ NL), StatusLine])
   \<and> f64 (f64 (base_delay 30 / speed_multiplier
                 (playback0\<lparr>frame := [[red]], width := 2, height := 1, paused := True\<rparr>))
            - f64 (of_int 10)) < 2 ^ 31
   \<and> video_tick cv0 (80, 24) (base_delay 30) '' '' 10
        (playback0\<lparr>frame := [[red]], width := 2, height := 1\<rparr>) [[[white]]]
       = Inr (Next (playback0\<lparr>frame := [[red]], width := 2, height := 1, paused := True\<rparr>)
               [[[white]]]
               ([Print clear_home, Print (''  '' @ NL), StatusLine] @ [Sleep 23]))"
proof -
  let ?pb = "playback0\<lparr>frame := [[red]], width := 2, height := 1\<rparr>"
  let ?pb1 = "playback0\<lparr>frame := [[red]], width := 2, height := 1, paused := True\<rparr>"
  let ?out = "[Print clear_home, Print (''  '' @ NL), StatusLine]"
  have a: "process_keys (80, 24) '' '' ?pb = Some ?pb1"
    by (simp add: video_key_def playback0_def)
  have b: "paused ?pb1" by simp
  have c: "draw cv0 (80, 24) ?pb1 = Inr (?pb1, ?out)"
    by (simp add: draw_def frameToAscii_def mat_empty_def mat_rows_def mat_cols_def
        target_box_def new_size_unit reserve_size_def in_int_def cv0_def monoLoop_def red_def
        tbl_nth ASCII_CHARS_def playback0_def new_player_def numeral_2_eq_2)
  have d: "f64 (f64 (base_delay 30 / speed_multiplier ?pb1) - f64 (of_int 10)) < 2 ^ 31"
    by code_simp
  have e: "(if f64 (of_int 10) < f64 (base_delay 30 / speed_multiplier ?pb1)
            then [Sleep (trunc (f64 (f64 (base_delay 30 / speed_multiplier ?pb1)
                                     - f64 (of_int 10))))]
            else []) = [Sleep 23]"
    by code_simp
  note T = paused_tick [OF a b c d, of "[[[white]]]", unfolded e]
  show ?thesis using a b c d T by blast
qed

text \<open>A paused tick at 30 frames per second with no time elapsed sleeps for 33
  milliseconds: the pacing is applied while paused.\<close>

theorem paused_tick_sleeps:
  "video_tick cv0 (80, 24) (base_delay 30) [] 0 (playback0\<lparr>paused := True\<rparr>) []
     = Inr (Next (playback0\<lparr>paused := True\<rparr>) [] [Print clear_home, Sleep 33])"
  by code_simp

section \<open>The empty raster\<close>

text \<open>Claim C10. On an empty raster \<^verbatim>\<open>frameToAscii\<close> and \<^verbatim>\<open>frameToColorBlocks\<close> (which
  hands the raster to \<^verbatim>\<open>frameToAscii\<close>) return the empty text and the player unchanged,
  whatever the collaborators, the terminal, the mode and the box.\<close>

theorem empty_frame:
  assumes "mat_empty img"
  shows "frameToAscii ext term p img target_width target_height = Inr ([], p)
       \<and> frameToColorBlocks ext term p img target_width target_height = Inr ([], p)"
  using assms by (simp add: frameToAscii_def frameToColorBlocks_def)

theorem empty_frame_witness:
  "mat_empty [] \<and> frameToAscii cv0 (80, 24) (this playback_warm) [] 0 0 = Inr ([], this playback_warm)
   \<and> frameToColorBlocks cv0 (80, 24) (this playback_warm) [] 0 0 = Inr ([], this playback_warm)"
proof -
  have a: "mat_empty []" by (simp add: mat_empty_def mat_rows_def)
  show ?thesis using a empty_frame [OF a] by simp
qed

section \<open>The colour cache counters\<close>















end
